theory Spec2Isabelle
  imports Complex_Main "HOL-Library.Log_Nat" "HOL-Library.AList"
begin

section \<open>Python text and the two regular expressions of the cleaner\<close>

text \<open>
  A Python \<open>str\<close> is a sequence of Unicode code points, so text is a list of code points
  here. \<open>u\<close> writes an ASCII literal; a letter outside ASCII is written by its code point
  (228 is U+00E4, the a-umlaut of \<open>Universitaet\<close> and \<open>Maennlich\<close>, 8364 is the euro sign).
\<close>

type_synonym pystr = "nat list"

definition u :: "string \<Rightarrow> pystr" where
  "u s = map of_char s"

text \<open>
  \<open>\d\<close> in a \<open>str\<close> pattern, and the digits that \<open>float\<close> reads: the decimal digits of
  every script (Unicode category \<open>Nd\<close>). They come in blocks that run from a digit zero to
  a digit nine, once or several times over; \<open>decimal_digit_blocks\<close> lists the first code
  point and the size of each block (Unicode 14.0, the table of Python 3.11). The first block
  is \<open>0\<close> to \<open>9\<close>, the second the Arabic-Indic digits.
\<close>

definition decimal_digit_blocks :: "(nat \<times> nat) list" where
  "decimal_digit_blocks =
     [(48, 10), (1632, 10), (1776, 10), (1984, 10), (2406, 10), (2534, 10), (2662, 10),
      (2790, 10), (2918, 10), (3046, 10), (3174, 10), (3302, 10), (3430, 10), (3558, 10),
      (3664, 10), (3792, 10), (3872, 10), (4160, 10), (4240, 10), (6112, 10), (6160, 10),
      (6470, 10), (6608, 10), (6784, 10), (6800, 10), (6992, 10), (7088, 10), (7232, 10),
      (7248, 10), (42528, 10), (43216, 10), (43264, 10), (43472, 10), (43504, 10),
      (43600, 10), (44016, 10), (65296, 10), (66720, 10), (68912, 10), (69734, 10),
      (69872, 10), (69942, 10), (70096, 10), (70384, 10), (70736, 10), (70864, 10),
      (71248, 10), (71360, 10), (71472, 10), (71904, 10), (72016, 10), (72784, 10),
      (73040, 10), (73120, 10), (92768, 10), (92864, 10), (93008, 10), (120782, 50),
      (123200, 10), (123632, 10), (125264, 10), (130032, 10)]"

definition decimal_value :: "nat \<Rightarrow> nat option" where
  "decimal_value c =
     (case filter (\<lambda>b. fst b \<le> c \<and> c < fst b + snd b) decimal_digit_blocks of
        [] \<Rightarrow> None
      | b # _ \<Rightarrow> Some ((c - fst b) mod 10))"

definition is_digit :: "nat \<Rightarrow> bool" where
  "is_digit c = (decimal_value c \<noteq> None)"

text \<open>
  \<open>re.findall(r'\d+', s)\<close>: the maximal runs of digits, left to right. \<open>cur\<close> is the run
  being read.
\<close>

fun scan_digits :: "pystr \<Rightarrow> pystr \<Rightarrow> pystr list" where
  "scan_digits cur [] = (if cur = [] then [] else [cur])"
| "scan_digits cur (c # cs) =
     (if is_digit c then scan_digits (cur @ [c]) cs
      else if cur = [] then scan_digits [] cs
      else cur # scan_digits [] cs)"

definition findall_digits :: "pystr \<Rightarrow> pystr list" where
  "findall_digits s = scan_digits [] s"

text \<open>\<open>re.search(r'\d+', s)\<close>: the first run, if there is one.\<close>

definition search_digits :: "pystr \<Rightarrow> pystr option" where
  "search_digits s = (case findall_digits s of [] \<Rightarrow> None | m # _ \<Rightarrow> Some m)"

text \<open>
  \<open>re.IGNORECASE\<close> on a \<open>str\<close> pattern compares the simple lowercase mapping of the text's
  code point with that of the pattern's, or with one of the pattern letter's listed
  equivalents (dotless i for \<open>i\<close>, long s for \<open>s\<close>). \<open>unicode_tolower\<close> is given for every
  code point whose image is at most U+00FF, where all letters of the pattern live; it
  leaves the others alone.
\<close>

definition unicode_tolower :: "nat \<Rightarrow> nat" where
  "unicode_tolower c =
     (if (65 \<le> c \<and> c \<le> 90) \<or> (192 \<le> c \<and> c \<le> 222 \<and> c \<noteq> 215) then c + 32
      else if c = 304 then 105
      else if c = 376 then 255
      else if c = 7838 then 223
      else if c = 8490 then 107
      else if c = 8491 then 229
      else c)"

definition ignorecase_fixes :: "nat \<Rightarrow> nat list" where
  "ignorecase_fixes lo = (if lo = 105 then [305] else if lo = 115 then [383] else [])"

definition ci_match :: "nat \<Rightarrow> nat \<Rightarrow> bool" where
  "ci_match p c =
     (let lo = unicode_tolower p; lc = unicode_tolower c
      in lc = lo \<or> lc \<in> set (ignorecase_fixes lo))"

text \<open>A literal alternative matched at the start of the text.\<close>

fun match_here_ci :: "pystr \<Rightarrow> pystr \<Rightarrow> bool" where
  "match_here_ci [] cs = True"
| "match_here_ci (p # ps) [] = False"
| "match_here_ci (p # ps) (c # cs) = (ci_match p c \<and> match_here_ci ps cs)"

text \<open>
  \<open>re.search\<close> of an alternation of literals: the first position at which some alternative
  matches.
\<close>

fun search_alt_ci :: "pystr list \<Rightarrow> pystr \<Rightarrow> bool" where
  "search_alt_ci alts [] = list_ex (\<lambda>p. match_here_ci p []) alts"
| "search_alt_ci alts (c # cs) =
     (list_ex (\<lambda>p. match_here_ci p (c # cs)) alts \<or> search_alt_ci alts cs)"

section \<open>Binary64 arithmetic\<close>

text \<open>
  A number is a finite value, an infinity or NaN. The finite values of binary64 are the
  rationals that \<open>fl_round\<close> leaves as they are; a cell of an integer column holds a finite
  value that need not be one of them. The two zeros are one value, as they are for \<open>==\<close>
  and for \<open>pandas\<close>' keys; the sign of a zero shows only in a division by it, and every
  divisor of this program is a non-zero constant or a square, whose zero is \<open>+0.0\<close>.
\<close>

datatype float64 = Fin rat | PInf | NInf | NaN

text \<open>\<open>ilog2 x\<close> is the exponent of \<open>x > 0\<close>: the \<open>e\<close> with \<open>2^e \<le> x < 2^(e+1)\<close>.\<close>

definition ilog2 :: "rat \<Rightarrow> int" where
  "ilog2 x = (let (p, q) = quotient_of x; e = bitlen p - bitlen q
              in if 2 powi e \<le> x then e else e - 1)"

definition round_half_even :: "rat \<Rightarrow> int" where
  "round_half_even x =
     (let f = \<lfloor>x\<rfloor>; d = x - of_int f
      in if d < 1 / 2 then f else if 1 / 2 < d then f + 1 else if even f then f else f + 1)"

text \<open>
  Round to nearest, ties to even, with 53 significant bits, the exponent kept at or above
  \<open>-1022\<close> (subnormals) and overflow to an infinity.
\<close>

definition fl_round :: "rat \<Rightarrow> float64" where
  "fl_round x =
     (if x = 0 then Fin 0
      else let e = max (ilog2 \<bar>x\<bar>) (- 1022);
               q = 2 powi (e - 52);
               r = of_int (round_half_even (x / q)) * q
           in if 2 ^ 1024 \<le> \<bar>r\<bar> then (if 0 < x then PInf else NInf) else Fin r)"

fun fadd :: "float64 \<Rightarrow> float64 \<Rightarrow> float64" where
  "fadd NaN b = NaN"
| "fadd a NaN = NaN"
| "fadd PInf NInf = NaN"
| "fadd NInf PInf = NaN"
| "fadd PInf b = PInf"
| "fadd a PInf = PInf"
| "fadd NInf b = NInf"
| "fadd a NInf = NInf"
| "fadd (Fin x) (Fin y) = fl_round (x + y)"

definition signed_inf :: "bool \<Rightarrow> float64" where
  "signed_inf negative = (if negative then NInf else PInf)"

fun fmul :: "float64 \<Rightarrow> float64 \<Rightarrow> float64" where
  "fmul NaN b = NaN"
| "fmul a NaN = NaN"
| "fmul (Fin x) (Fin y) = fl_round (x * y)"
| "fmul (Fin x) PInf = (if x = 0 then NaN else signed_inf (x < 0))"
| "fmul (Fin x) NInf = (if x = 0 then NaN else signed_inf (0 < x))"
| "fmul PInf (Fin y) = (if y = 0 then NaN else signed_inf (y < 0))"
| "fmul NInf (Fin y) = (if y = 0 then NaN else signed_inf (0 < y))"
| "fmul PInf PInf = PInf"
| "fmul NInf NInf = PInf"
| "fmul PInf NInf = NInf"
| "fmul NInf PInf = NInf"

fun fdiv :: "float64 \<Rightarrow> float64 \<Rightarrow> float64" where
  "fdiv NaN b = NaN"
| "fdiv a NaN = NaN"
| "fdiv (Fin x) (Fin y) =
     (if y = 0 then (if x = 0 then NaN else signed_inf (x < 0)) else fl_round (x / y))"
| "fdiv (Fin x) PInf = Fin 0"
| "fdiv (Fin x) NInf = Fin 0"
| "fdiv PInf (Fin y) = signed_inf (y < 0)"
| "fdiv NInf (Fin y) = signed_inf (0 \<le> y)"
| "fdiv a b = NaN"

text \<open>
  \<open>astype(float64)\<close>, which arithmetic applies to its operands: an integer of an
  \<open>int64\<close> column becomes the nearest binary64 (ties to even), a binary64 stays what it is.
\<close>

definition as_float64 :: "float64 \<Rightarrow> float64" where
  "as_float64 a = (case a of Fin x \<Rightarrow> fl_round x | _ \<Rightarrow> a)"

definition is_finite :: "float64 \<Rightarrow> bool" where
  "is_finite a = (case a of Fin x \<Rightarrow> True | _ \<Rightarrow> False)"

text \<open>
  \<open>float(s)\<close> for a run of digits, each read by its decimal value: the nearest binary64
  to the decimal number (an infinity for a run too long to represent).
\<close>

definition nat_of_digits :: "pystr \<Rightarrow> nat" where
  "nat_of_digits ds =
     foldl (\<lambda>a d. 10 * a + (case decimal_value d of Some v \<Rightarrow> v | None \<Rightarrow> 0)) 0 ds"

definition float_of_digits :: "pystr \<Rightarrow> float64" where
  "float_of_digits ds = fl_round (of_nat (nat_of_digits ds))"

section \<open>Cells, series and frames\<close>

text \<open>
  A cell of a table read by \<open>pd.read_csv\<close> is a number or a text; the missing value is the
  float NaN, in numeric and in text columns alike (\<open>pd.isna\<close>). A \<open>Series\<close> is the list of
  its cells, its index being the positions \<open>0, 1, ...\<close> (\<open>RangeIndex\<close>, which
  \<open>read_csv\<close> and \<open>reset_index(drop=True)\<close> give).
\<close>

datatype cell = Num float64 | Str pystr

type_synonym series = "cell list"

definition isna :: "cell \<Rightarrow> bool" where
  "isna v = (v = Num NaN)"

datatype error =
    KeyError string
  | IndexingError
  | TypeError
  | AttributeError
  | ValueError
  | MergeError
  | UnicodeDecodeError
  | OtherError string

definition and_then :: "error + 'a \<Rightarrow> ('a \<Rightarrow> error + 'b) \<Rightarrow> error + 'b" where
  "and_then m f = (case m of Inl e \<Rightarrow> Inl e | Inr x \<Rightarrow> f x)"

text \<open>
  A \<open>DataFrame\<close>: the length of its index and its columns in order. \<open>wf_frame\<close> is what every
  \<open>DataFrame\<close> satisfies: distinct column names, each column as long as the index.
\<close>

record frame =
  index_len :: nat
  columns :: "(string \<times> series) list"

definition wf_frame :: "frame \<Rightarrow> bool" where
  "wf_frame df =
     (distinct (map fst (columns df)) \<and>
      list_all (\<lambda>cs. length (snd cs) = index_len df) (columns df))"

definition DataFrame_empty :: frame where
  "DataFrame_empty = \<lparr>index_len = 0, columns = []\<rparr>"

text \<open>\<open>df[c]\<close>.\<close>

definition getitem :: "frame \<Rightarrow> string \<Rightarrow> error + series" where
  "getitem df c = (case map_of (columns df) c of None \<Rightarrow> Inl (KeyError c) | Some s \<Rightarrow> Inr s)"

text \<open>\<open>s.reindex(range(n))\<close>: the first \<open>n\<close> positions, NaN where \<open>s\<close> has none.\<close>

definition reindex :: "nat \<Rightarrow> series \<Rightarrow> series" where
  "reindex n s = take n s @ replicate (n - length s) (Num NaN)"

text \<open>
  \<open>df[c] = s\<close> for a Series \<open>s\<close>. A frame whose index is empty takes the index of a
  non-empty \<open>s\<close>, its columns filled with NaN; otherwise \<open>s\<close> is aligned to the frame's
  index. A new column goes last, an old one keeps its place.
\<close>

definition setitem :: "frame \<Rightarrow> string \<Rightarrow> series \<Rightarrow> frame" where
  "setitem df c s =
     (if index_len df = 0 \<and> s \<noteq> []
      then \<lparr>index_len = length s,
            columns = AList.update c s
              (map (\<lambda>cs. (fst cs, replicate (length s) (Num NaN))) (columns df))\<rparr>
      else df\<lparr>columns := AList.update c (reindex (index_len df) s) (columns df)\<rparr>)"

text \<open>\<open>df.iloc[k:].reset_index(drop=True)\<close>.\<close>

definition iloc_from :: "nat \<Rightarrow> frame \<Rightarrow> frame" where
  "iloc_from k df =
     \<lparr>index_len = index_len df - k,
      columns = map (\<lambda>cs. (fst cs, drop k (snd cs))) (columns df)\<rparr>"

text \<open>\<open>s.map(mapping)\<close> for a dict with text keys: a cell that is no key becomes NaN.\<close>

definition series_map :: "(pystr \<times> cell) list \<Rightarrow> series \<Rightarrow> series" where
  "series_map mapping s =
     map (\<lambda>v. case v of
                 Str k \<Rightarrow> (case map_of mapping k of Some r \<Rightarrow> r | None \<Rightarrow> Num NaN)
               | Num x \<Rightarrow> Num NaN) s"

text \<open>\<open>s == v\<close>, cell by cell (NaN equals nothing).\<close>

definition series_eq :: "series \<Rightarrow> cell \<Rightarrow> bool list" where
  "series_eq s v = map (\<lambda>w. w = v \<and> \<not> isna w) s"

text \<open>
  \<open>str(val)\<close>: a text is itself; how a number prints depends on the column's dtype
  (\<open>5\<close> or \<open>5.0\<close>), so the printing of numbers is a parameter.
\<close>

definition py_str :: "(float64 \<Rightarrow> pystr) \<Rightarrow> cell \<Rightarrow> pystr" where
  "py_str num_str v = (case v of Str s \<Rightarrow> s | Num x \<Rightarrow> num_str x)"

fun traverse :: "('a \<Rightarrow> error + 'b) \<Rightarrow> 'a list \<Rightarrow> error + 'b list" where
  "traverse f [] = Inr []"
| "traverse f (x # xs) =
     and_then (f x) (\<lambda>y. and_then (traverse f xs) (\<lambda>ys. Inr (y # ys)))"

section \<open>clean\_exogenous\_data.py\<close>

definition extract_number :: "(float64 \<Rightarrow> pystr) \<Rightarrow> cell \<Rightarrow> cell" where
  "extract_number num_str v =
     (if isna v then Num NaN
      else let val_str = py_str num_str v
           in case search_digits val_str of
                Some m \<Rightarrow> Num (float_of_digits m)
              | None \<Rightarrow> Num NaN)"

definition clean_risk_tolerance :: "(float64 \<Rightarrow> pystr) \<Rightarrow> series \<Rightarrow> series" where
  "clean_risk_tolerance num_str s = map (extract_number num_str) s"

definition encode_respondent_work_hours :: "series \<Rightarrow> series" where
  "encode_respondent_work_hours s =
     series_map
       [(u ''0 Stunden'', Num (Fin 0)),
        (u ''1-10 Stunden'', Num (Fin (11 / 2))),
        (u ''11-20 Stunden'', Num (Fin (31 / 2))),
        (u ''21-30 Stunden'', Num (Fin (51 / 2))),
        (u ''31-40 Stunden'', Num (Fin (71 / 2))),
        (u ''41-50 Stunden'', Num (Fin (91 / 2))),
        (u ''Mehr als 50 Stunden'', Num (Fin 55)),
        (u ''Nicht erwerbst'' @ [228] @ u ''tig'', Num (Fin 0))] s"

definition encode_gender :: "series \<Rightarrow> series" where
  "encode_gender s =
     series_map
       [(u ''M'' @ [228] @ u ''nnlich'', Str (u ''Male'')),
        (u ''Weiblich'', Str (u ''Female'')),
        (u ''Divers'', Str (u ''Diverse''))] s"

definition encode_education :: "series \<Rightarrow> series" where
  "encode_education s =
     series_map
       [(u ''Ohne allgemeinen Schulabschluss'', Num (Fin 1)),
        (u ''Haupt- oder Volksschulabschluss (Abschluss der Pflichtschule)'', Num (Fin 2)),
        (u ''Abschluss der Polytechnischen Oberschule der DDR'', Num (Fin 3)),
        (u ''Mittleren Schulabschluss (z.B. Realschulabschluss)'', Num (Fin 3)),
        (u ''Abitur oder Fachabitur (H'' @ [246] @ u ''chster Schulabschluss/ Hochschulreife)'',
         Num (Fin 4))] s"

definition encode_health_status :: "series \<Rightarrow> series" where
  "encode_health_status s =
     series_map
       [(u ''Schlecht'', Num (Fin 1)),
        (u ''Weniger gut'', Num (Fin 2)),
        (u ''Zufriedenstellend'', Num (Fin 3)),
        (u ''Gut'', Num (Fin 4)),
        (u ''Sehr gut'', Num (Fin 5))] s"

definition encode_change_variables :: "series \<Rightarrow> series" where
  "encode_change_variables s =
     series_map
       [(u ''stark abgenommen'', Num (Fin (- 2))),
        (u ''leicht abgenommen'', Num (Fin (- 1))),
        (u ''sich nicht ver'' @ [228] @ u ''ndert'', Num (Fin 0)),
        (u ''leicht zugenommen'', Num (Fin 1)),
        (u ''stark zugenommen'', Num (Fin 2))] s"

definition extract_midpoint :: "(float64 \<Rightarrow> pystr) \<Rightarrow> cell \<Rightarrow> cell" where
  "extract_midpoint num_str v =
     (if isna v then Num NaN
      else let val_str = py_str num_str v;
               numbers = findall_digits val_str
           in if 2 \<le> length numbers
              then Num (fdiv (fadd (float_of_digits (numbers ! 0)) (float_of_digits (numbers ! 1)))
                         (Fin 2))
              else if length numbers = 1 then Num (float_of_digits (numbers ! 0))
              else Num NaN)"

definition parse_income_range :: "(float64 \<Rightarrow> pystr) \<Rightarrow> series \<Rightarrow> series" where
  "parse_income_range num_str s = map (extract_midpoint num_str) s"

text \<open>
  Series arithmetic, as \<open>calculate_bmi\<close> uses it: cell by cell in binary64, nothing raised
  for a zero divisor or an overflow; a text cell makes the operation raise \<open>TypeError\<close>.
  \<open>/\<close> is true division: the cells of an integer column are converted to binary64 before
  they are divided. \<open>** 2\<close> is applied to the quotient \<open>height_m\<close>, a binary64 series.
  Two series are aligned on their indexes, a position that only one of them has giving
  NaN.
\<close>

definition cell_div :: "cell \<Rightarrow> cell \<Rightarrow> error + cell" where
  "cell_div a b =
     (case (a, b) of
        (Num x, Num y) \<Rightarrow> Inr (Num (fdiv (as_float64 x) (as_float64 y)))
      | _ \<Rightarrow> Inl TypeError)"

definition cell_square :: "cell \<Rightarrow> error + cell" where
  "cell_square a = (case a of Num x \<Rightarrow> Inr (Num (fmul x x)) | Str s \<Rightarrow> Inl TypeError)"

definition series_div_scalar :: "series \<Rightarrow> float64 \<Rightarrow> error + series" where
  "series_div_scalar s k = traverse (\<lambda>a. cell_div a (Num k)) s"

definition series_pow2 :: "series \<Rightarrow> error + series" where
  "series_pow2 s = traverse cell_square s"

definition series_div :: "series \<Rightarrow> series \<Rightarrow> error + series" where
  "series_div a b =
     (let n = max (length a) (length b)
      in traverse (\<lambda>ab. cell_div (fst ab) (snd ab)) (zip (reindex n a) (reindex n b)))"

definition calculate_bmi :: "series \<Rightarrow> series \<Rightarrow> error + series" where
  "calculate_bmi height_cm weight_kg =
     and_then (series_div_scalar height_cm (Fin 100)) (\<lambda>height_m.
     and_then (series_pow2 height_m) (\<lambda>squared.
     series_div weight_kg squared))"

text \<open>
  \<open>s.str.contains(pat, case=False, na=False).astype(int)\<close> for an alternation of literals.
  The \<open>.str\<close> accessor raises \<open>AttributeError\<close> on a numeric column, which is what
  \<open>read_csv\<close> gives a column with rows and no text cell; a cell that is no text counts as
  no match (\<open>na=False\<close>).
\<close>

definition str_contains_int :: "pystr list \<Rightarrow> series \<Rightarrow> error + series" where
  "str_contains_int alts s =
     (if s \<noteq> [] \<and> list_all (\<lambda>v. case v of Num x \<Rightarrow> True | Str t \<Rightarrow> False) s
      then Inl AttributeError
      else Inr (map (\<lambda>v. case v of
                           Str t \<Rightarrow> Num (Fin (if search_alt_ci alts t then 1 else 0))
                         | Num x \<Rightarrow> Num (Fin 0)) s))"

definition degree_patterns :: "pystr list" where
  "degree_patterns =
     [u ''Universit'' @ [228] @ u ''t'', u ''Hochschule'', u ''Bachelor'', u ''Master'',
      u ''Diplom'', u ''Promotion'']"

text \<open>
  \<open>df.loc[key, c] = df.loc[key, c].fillna(0)\<close> for a boolean Series \<open>key\<close>. A key shorter
  than the frame's index cannot be aligned and raises \<open>IndexingError\<close>; a longer one is cut
  to the index. The right-hand side selects the rows of the key with their labels and
  fills their NaN; the assignment writes each selected row back at its label.
\<close>

definition check_bool_indexer :: "nat \<Rightarrow> bool list \<Rightarrow> error + bool list" where
  "check_bool_indexer n key = (if length key < n then Inl IndexingError else Inr (take n key))"

definition loc_get :: "bool list \<Rightarrow> series \<Rightarrow> (nat \<times> cell) list" where
  "loc_get keep s = filter (\<lambda>iv. keep ! fst iv) (zip [0..<length s] s)"

definition fillna :: "cell \<Rightarrow> (nat \<times> cell) list \<Rightarrow> (nat \<times> cell) list" where
  "fillna fill sel = map (\<lambda>iv. (fst iv, if isna (snd iv) then fill else snd iv)) sel"

definition loc_set :: "series \<Rightarrow> (nat \<times> cell) list \<Rightarrow> series" where
  "loc_set s sel = fold (\<lambda>iv acc. acc[fst iv := snd iv]) sel s"

definition loc_fillna0 :: "bool list \<Rightarrow> string \<Rightarrow> frame \<Rightarrow> error + frame" where
  "loc_fillna0 key c df =
     and_then (check_bool_indexer (index_len df) key) (\<lambda>keep.
     and_then (getitem df c) (\<lambda>s.
     Inr (df\<lparr>columns := AList.update c (loc_set s (fillna (Num (Fin 0)) (loc_get keep s)))
                              (columns df)\<rparr>)))"

text \<open>One statement \<open>df_clean[c] = expr\<close>, where evaluating \<open>expr\<close> may raise.\<close>

definition assign :: "string \<Rightarrow> error + series \<Rightarrow> frame \<Rightarrow> error + frame" where
  "assign c expr df = and_then expr (\<lambda>s. Inr (setitem df c s))"

fun run_steps :: "('s \<Rightarrow> error + 's) list \<Rightarrow> 's \<Rightarrow> error + 's" where
  "run_steps [] st = Inr st"
| "run_steps (f # fs) st = and_then (f st) (run_steps fs)"

definition apply_to :: "(series \<Rightarrow> series) \<Rightarrow> error + series \<Rightarrow> error + series" where
  "apply_to f expr = and_then expr (\<lambda>s. Inr (f s))"

text \<open>
  The statements of \<open>clean_exogenous_dataset\<close> that build \<open>df_clean\<close>, in the order of the
  source. \<open>num_str c\<close> is how the numbers of column \<open>c\<close> print.
\<close>

definition clean_steps ::
  "(string \<Rightarrow> float64 \<Rightarrow> pystr) \<Rightarrow> frame \<Rightarrow> series \<Rightarrow> (frame \<Rightarrow> error + frame) list" where
  "clean_steps num_str df q1_data =
     (let lives_alone = series_eq q1_data (Str (u ''Nein'')) in
      [assign ''ResponseId'' (getitem df ''ResponseId''),
       assign ''lives_with_others''
         (Inr (series_map [(u ''Ja'', Str (u ''Yes'')), (u ''Nein'', Str (u ''No''))] q1_data)),
       assign ''respondent_work_hours'' (apply_to encode_respondent_work_hours (getitem df ''Q179'')),
       assign ''respondent_work_hours_cat'' (getitem df ''Q179''),
       assign ''num_children'' (getitem df ''Q4_4''),
       assign ''num_partners'' (getitem df ''Q4_2''),
       assign ''num_parents'' (getitem df ''Q4_3''),
       assign ''num_siblings'' (getitem df ''Q4_5''),
       loc_fillna0 lives_alone ''num_children'',
       loc_fillna0 lives_alone ''num_partners'',
       loc_fillna0 lives_alone ''num_parents'',
       loc_fillna0 lives_alone ''num_siblings'',
       assign ''age'' (getitem df ''Q80_1''),
       assign ''gender'' (apply_to encode_gender (getitem df ''Q256'')),
       assign ''gender_code''
         (apply_to (series_map [(u ''M'' @ [228] @ u ''nnlich'', Num (Fin 1)),
                                (u ''Weiblich'', Num (Fin 2)),
                                (u ''Divers'', Num (Fin 3))]) (getitem df ''Q256'')),
       assign ''education_level'' (apply_to encode_education (getitem df ''Q190'')),
       assign ''education_cat'' (getitem df ''Q190''),
       assign ''zip_code'' (getitem df ''Q120''),
       assign ''vocational_qualification'' (getitem df ''Q191''),
       assign ''has_university_degree''
         (and_then (getitem df ''Q191'') (str_contains_int degree_patterns)),
       assign ''height_cm'' (getitem df ''Q82_1''),
       assign ''weight_kg'' (getitem df ''Q83_1''),
       assign ''bmi''
         (and_then (getitem df ''Q82_1'') (\<lambda>h. and_then (getitem df ''Q83_1'') (calculate_bmi h))),
       assign ''risk_tolerance''
         (apply_to (clean_risk_tolerance (num_str ''Q84'')) (getitem df ''Q84'')),
       assign ''personal_income_change'' (apply_to encode_change_variables (getitem df ''Q219_3'')),
       assign ''partner_income_change'' (apply_to encode_change_variables (getitem df ''Q219_4'')),
       assign ''task_share_food'' (getitem df ''Q243_1''),
       assign ''task_share_childcare'' (getitem df ''Q243_2''),
       assign ''task_share_education'' (getitem df ''Q243_3''),
       assign ''task_share_housework'' (getitem df ''Q243_9''),
       assign ''health_status'' (apply_to encode_health_status (getitem df ''Q211'')),
       assign ''health_status_cat'' (getitem df ''Q211''),
       assign ''household_income''
         (apply_to (parse_income_range (num_str ''Q86'')) (getitem df ''Q86'')),
       assign ''personal_income''
         (apply_to (parse_income_range (num_str ''Q87'')) (getitem df ''Q87'')),
       assign ''household_income_cat'' (getitem df ''Q86''),
       assign ''personal_income_cat'' (getitem df ''Q87'')])"

text \<open>
  \<open>clean_exogenous_dataset\<close>, from the two tables as \<open>read_csv\<close> returned them to the
  \<open>df_clean\<close> it writes and returns.
\<close>

definition clean_exogenous_dataset ::
  "(string \<Rightarrow> float64 \<Rightarrow> pystr) \<Rightarrow> frame \<Rightarrow> frame \<Rightarrow> error + frame" where
  "clean_exogenous_dataset num_str df df_original =
     and_then (getitem (iloc_from 2 df_original) ''Q1'') (\<lambda>q1_data.
     run_steps (clean_steps num_str df q1_data) DataFrame_empty)"

section \<open>merge\_regional\_data.py\<close>

text \<open>
  \<open>pd.read_csv(regions_file, encoding=enc)\<close> is a parameter: for each encoding, the frame
  it returns or the exception it raises on the file at hand. \<open>load_regions\<close> is the nested
  \<open>try\<close>/\<open>except UnicodeDecodeError\<close> of the source; beside the result it gives the
  encodings it tried, in order.
\<close>

datatype encoding = UTF8 | Latin1 | CP1252

definition load_regions ::
  "(encoding \<Rightarrow> error + frame) \<Rightarrow> encoding list \<times> (error + frame)" where
  "load_regions read_csv =
     (let r1 = read_csv UTF8 in
      if r1 \<noteq> Inl UnicodeDecodeError then ([UTF8], r1)
      else let r2 = read_csv Latin1 in
           if r2 \<noteq> Inl UnicodeDecodeError then ([UTF8, Latin1], r2)
           else ([UTF8, Latin1, CP1252], read_csv CP1252))"

text \<open>\<open>df.loc[:, ~df.columns.str.contains('^Unnamed')]\<close> and \<open>df.dropna(axis=1, how='all')\<close>.\<close>

definition drop_unnamed :: "frame \<Rightarrow> frame" where
  "drop_unnamed df = df\<lparr>columns := filter (\<lambda>cs. take 7 (fst cs) \<noteq> ''Unnamed'') (columns df)\<rparr>"

definition dropna_columns_all :: "frame \<Rightarrow> frame" where
  "dropna_columns_all df =
     df\<lparr>columns := filter (\<lambda>cs. list_ex (\<lambda>v. \<not> isna v) (snd cs)) (columns df)\<rparr>"

text \<open>
  \<open>df.groupby(key).first().reset_index()\<close>. The groups are the keys that are not NaN, each
  once, in sorted order (numbers by size and before texts, texts by code point).
  \<open>first()\<close> takes, column by column, the first cell of the group that is not NaN, or NaN
  when the group has none. The key column comes first, the others keep their order.
\<close>

fun pystr_le :: "pystr \<Rightarrow> pystr \<Rightarrow> bool" where
  "pystr_le [] t = True"
| "pystr_le (x # xs) [] = False"
| "pystr_le (x # xs) (y # ys) = (x < y \<or> (x = y \<and> pystr_le xs ys))"

fun float_le :: "float64 \<Rightarrow> float64 \<Rightarrow> bool" where
  "float_le NInf b = True"
| "float_le a PInf = True"
| "float_le (Fin x) (Fin y) = (x \<le> y)"
| "float_le a b = False"

fun cell_le :: "cell \<Rightarrow> cell \<Rightarrow> bool" where
  "cell_le (Num a) (Num b) = float_le a b"
| "cell_le (Str s) (Str t) = pystr_le s t"
| "cell_le (Num a) (Str t) = True"
| "cell_le (Str s) (Num b) = False"

fun insort_cell :: "cell \<Rightarrow> cell list \<Rightarrow> cell list" where
  "insort_cell k [] = [k]"
| "insort_cell k (x # xs) = (if cell_le k x then k # x # xs else x # insort_cell k xs)"

definition sort_cells :: "cell list \<Rightarrow> cell list" where
  "sort_cells ks = foldr insort_cell ks []"

definition group_keys :: "series \<Rightarrow> cell list" where
  "group_keys ks = sort_cells (remdups (filter (\<lambda>k. \<not> isna k) ks))"

definition group_cells :: "series \<Rightarrow> series \<Rightarrow> cell \<Rightarrow> cell list" where
  "group_cells ks s k = map snd (filter (\<lambda>kv. fst kv = k) (zip ks s))"

definition first_valid :: "cell list \<Rightarrow> cell" where
  "first_valid vs = (case filter (\<lambda>v. \<not> isna v) vs of [] \<Rightarrow> Num NaN | v # _ \<Rightarrow> v)"

definition groupby_first :: "string \<Rightarrow> frame \<Rightarrow> error + frame" where
  "groupby_first key_col df =
     and_then (getitem df key_col) (\<lambda>ks.
     let gk = group_keys ks
     in Inr \<lparr>index_len = length gk,
             columns = (key_col, gk) #
               map (\<lambda>cs. (fst cs, map (\<lambda>k. first_valid (group_cells ks (snd cs) k)) gk))
                 (filter (\<lambda>cs. fst cs \<noteq> key_col) (columns df))\<rparr>)"

text \<open>\<open>df[cols]\<close> for a list of names, and \<open>df.rename(columns=...)\<close>.\<close>

definition select_columns :: "string list \<Rightarrow> frame \<Rightarrow> error + frame" where
  "select_columns cols df =
     and_then (traverse (\<lambda>c. and_then (getitem df c) (\<lambda>s. Inr (c, s))) cols) (\<lambda>sel.
     Inr (df\<lparr>columns := sel\<rparr>))"

definition rename_columns :: "(string \<times> string) list \<Rightarrow> frame \<Rightarrow> frame" where
  "rename_columns names df =
     df\<lparr>columns :=
          map (\<lambda>cs. (case map_of names (fst cs) of Some c \<Rightarrow> c | None \<Rightarrow> fst cs, snd cs))
            (columns df)\<rparr>"

text \<open>
  \<open>left.merge(right, left_on=..., right_on=..., how='left')\<close>. Every left row, in order,
  is paired with each right row of an equal key (NaN keys are equal to each other), or
  with none. A name on both sides gets the suffix \<open>_x\<close> on the left and \<open>_y\<close> on the right.
  Keys of text on one side and of numbers on the other raise \<open>ValueError\<close>.
\<close>

definition join_pairs :: "series \<Rightarrow> series \<Rightarrow> (nat \<times> nat option) list" where
  "join_pairs lk rk =
     concat (map (\<lambda>i. case filter (\<lambda>j. rk ! j = lk ! i) [0..<length rk] of
                         [] \<Rightarrow> [(i, None)]
                       | j # js \<Rightarrow> map (\<lambda>j'. (i, Some j')) (j # js))
               [0..<length lk])"

definition has_text :: "series \<Rightarrow> bool" where
  "has_text s = list_ex (\<lambda>v. case v of Str t \<Rightarrow> True | Num x \<Rightarrow> False) s"

definition suffixed :: "string list \<Rightarrow> string \<Rightarrow> string \<Rightarrow> string" where
  "suffixed others suffix c = (if c \<in> set others then c @ suffix else c)"

definition merge_left :: "frame \<Rightarrow> frame \<Rightarrow> string \<Rightarrow> string \<Rightarrow> error + frame" where
  "merge_left left right left_on right_on =
     and_then (getitem left left_on) (\<lambda>lk.
     and_then (getitem right right_on) (\<lambda>rk.
     if lk \<noteq> [] \<and> rk \<noteq> [] \<and> has_text lk \<noteq> has_text rk then Inl ValueError
     else
       let pairs = join_pairs lk rk;
           lnames = map fst (columns left);
           rnames = map fst (columns right);
           lcols = map (\<lambda>cs. (suffixed rnames ''_x'' (fst cs), map (\<lambda>p. snd cs ! fst p) pairs))
                     (columns left);
           rcols = map (\<lambda>cs. (suffixed lnames ''_y'' (fst cs),
                               map (\<lambda>p. case snd p of None \<Rightarrow> Num NaN | Some j \<Rightarrow> snd cs ! j) pairs))
                     (columns right)
       in if distinct (map fst (lcols @ rcols))
          then Inr \<lparr>index_len = length pairs, columns = lcols @ rcols\<rparr>
          else Inl MergeError))"

text \<open>\<open>df.drop(c, axis=1)\<close>.\<close>

definition drop_column :: "string \<Rightarrow> frame \<Rightarrow> error + frame" where
  "drop_column c df =
     (if c \<in> set (map fst (columns df))
      then Inr (df\<lparr>columns := filter (\<lambda>cs. fst cs \<noteq> c) (columns df)\<rparr>)
      else Inl (KeyError c))"

definition regional_cols :: "string list" where
  "regional_cols =
     [''PLZ'', ''Bundesland'', ''Kreis'', ''Stadt.Dummy'', ''EW.km2'', ''Rural.Dummy'', ''EW'',
      ''Metropol.Dummy'']"

definition region_renames :: "(string \<times> string) list" where
  "region_renames =
     [(''PLZ'', ''region_plz''), (''Bundesland'', ''federal_state''), (''Kreis'', ''district''),
      (''Stadt.Dummy'', ''is_city''), (''EW.km2'', ''population_density''),
      (''Rural.Dummy'', ''is_rural''), (''EW'', ''population''),
      (''Metropol.Dummy'', ''is_metropolitan'')]"

definition new_vars :: "string list" where
  "new_vars =
     [''federal_state'', ''district'', ''is_city'', ''population_density'', ''is_rural'',
      ''population'', ''is_metropolitan'']"

text \<open>
  \<open>merged_output\<close> is the \<open>df_merged\<close> that \<open>merge_regional_data\<close> passes to \<open>to_csv\<close>, from
  the cleaned table as \<open>read_csv\<close> returned it, with the reads that its report makes on
  the way: \<open>df_clean['zip_code']\<close>, \<open>df_regions['PLZ']\<close> and
  \<open>df_merged['federal_state']\<close>.
\<close>

definition merged_output :: "frame \<Rightarrow> (encoding \<Rightarrow> error + frame) \<Rightarrow> error + frame" where
  "merged_output df_clean read_csv =
     and_then (getitem df_clean ''zip_code'') (\<lambda>zips.
     and_then (snd (load_regions read_csv)) (\<lambda>loaded.
     let df_regions = dropna_columns_all (drop_unnamed loaded) in
     and_then (getitem df_regions ''PLZ'') (\<lambda>plz.
     and_then (groupby_first ''PLZ'' df_regions) (\<lambda>df_regions_agg.
     and_then (select_columns regional_cols df_regions_agg) (\<lambda>sel.
     let df_regions_merge = rename_columns region_renames sel in
     and_then (merge_left df_clean df_regions_merge ''zip_code'' ''region_plz'') (\<lambda>merged.
     and_then (drop_column ''region_plz'' merged) (\<lambda>df_merged.
     and_then (getitem df_merged ''federal_state'') (\<lambda>matched.
     Inr df_merged))))))))"

text \<open>
  \<open>merge_regional_data\<close>, to the \<open>df_merged\<close> it returns: after the table is written, the
  summary reads each of the new columns.
\<close>

definition merge_regional_data :: "frame \<Rightarrow> (encoding \<Rightarrow> error + frame) \<Rightarrow> error + frame" where
  "merge_regional_data df_clean read_csv =
     and_then (merged_output df_clean read_csv) (\<lambda>df_merged.
     and_then (traverse (getitem df_merged) new_vars) (\<lambda>report.
     Inr df_merged))"

section \<open>Statements of the specification\<close>

text \<open>
  The income-range rule in the specification's words, to compare with \<open>extract_midpoint\<close>:
  with two or more numbers found the result is their arithmetic mean, with one it is that
  number, with none it is missing.
\<close>

definition spec_midpoint :: "pystr \<Rightarrow> cell" where
  "spec_midpoint s =
     (let numbers = map nat_of_digits (findall_digits s)
      in if 2 \<le> length numbers
         then Num (Fin (of_nat (sum_list numbers) / of_nat (length numbers)))
         else if length numbers = 1 then Num (Fin (of_nat (numbers ! 0)))
         else Num NaN)"
text \<open>
  "The text contains the substring, case-insensitive": some stretch of the text is the
  substring letter by letter, each letter in one of its forms. The forms of a letter \<open>a\<close>
  to \<open>z\<close>, of its capital and of a-umlaut are the small letter and the capital, and three
  letters have more forms in Unicode: the dotted capital I (U+0130) and the dotless small i
  (U+0131) for \<open>i\<close>, the Kelvin sign (U+212A) for \<open>k\<close>, the long s (U+017F) for \<open>s\<close>.
  The substrings of the program are made of these letters; any other character is given
  no form but itself.
\<close>

definition letter_forms :: "nat \<Rightarrow> nat list" where
  "letter_forms c =
     (let small = (if (65 \<le> c \<and> c \<le> 90) \<or> c = 196 then c + 32 else c)
      in if (97 \<le> small \<and> small \<le> 122) \<or> small = 228
         then [small, small - 32] @
              (if small = 105 then [304, 305]
               else if small = 107 then [8490]
               else if small = 115 then [383]
               else [])
         else [c])"

definition contains_ci :: "pystr \<Rightarrow> pystr \<Rightarrow> bool" where
  "contains_ci p t =
     (\<exists>pre m suf. t = pre @ m @ suf \<and> list_all2 (\<lambda>pc c. c \<in> set (letter_forms pc)) p m)"

section \<open>Notions used in the proofs\<close>

text \<open>
  A statement of \<open>clean_exogenous_dataset\<close> keeps column \<open>c\<close> of a frame of \<open>n\<close> rows when,
  if it does not raise, it leaves the number of rows and that column as they were.
\<close>

definition keeps :: "nat \<Rightarrow> string \<Rightarrow> (frame \<Rightarrow> error + frame) \<Rightarrow> bool" where
  "keeps n c f =
     (\<forall>st st'. index_len st = n \<longrightarrow> f st = Inr st' \<longrightarrow>
        index_len st' = n \<and> map_of (columns st') c = map_of (columns st) c)"

text \<open>
  A statement keeps a frame of \<open>n\<close> rows well formed when, if it does not raise, its
  result has \<open>n\<close> rows, distinct column names and columns of \<open>n\<close> cells.
\<close>

definition keeps_frame :: "nat \<Rightarrow> (frame \<Rightarrow> error + frame) \<Rightarrow> bool" where
  "keeps_frame n f =
     (\<forall>st st'. wf_frame st \<longrightarrow> index_len st = n \<longrightarrow> f st = Inr st' \<longrightarrow>
        wf_frame st' \<and> index_len st' = n)"

text \<open>
  A literal occurs in a text for \<open>re.IGNORECASE\<close> when some stretch of the text matches it
  code point by code point.
\<close>

definition occurs_ci :: "pystr \<Rightarrow> pystr \<Rightarrow> bool" where
  "occurs_ci p t = (\<exists>pre m suf. t = pre @ m @ suf \<and> list_all2 ci_match p m)"

text \<open>
  What the merge puts in a regional column: the column \<open>s\<close> of the region table with
  postal codes \<open>plz\<close>, read at the postal codes \<open>zips\<close> of the cleaned table. A code that
  is missing or not in the region table gives a missing value; any other gives the value
  that \<open>first()\<close> takes from its group.
\<close>

definition joined_column :: "series \<Rightarrow> series \<Rightarrow> series \<Rightarrow> series" where
  "joined_column zips plz s =
     map (\<lambda>k. if k \<in> set plz \<and> \<not> isna k then first_valid (group_cells plz s k) else Num NaN)
       zips"

section \<open>A small run\<close>

text \<open>
  Two respondents, used to run both jobs on concrete tables. The first lives alone
  (\<open>Q1 = Nein\<close>), is 180 cm and 81 kg, holds a master's degree and gave no household counts
  but the number of partners; the second lives with others, gave a height of 0 and no
  postal code that the region table knows. The secondary export has two leading rows
  before its two data rows.
\<close>

definition na :: cell where
  "na = Num NaN"

definition example_df :: frame where
  "example_df =
     \<lparr>index_len = 2,
      columns =
        [(''ResponseId'', [Str (u ''R_1''), Str (u ''R_2'')]),
         (''Q179'', [Str (u ''21-30 Stunden''), na]),
         (''Q4_4'', [na, na]),
         (''Q4_2'', [Num (Fin 1), na]),
         (''Q4_3'', [na, Num (Fin 2)]),
         (''Q4_5'', [na, na]),
         (''Q80_1'', [Num (Fin 41), Num (Fin 29)]),
         (''Q256'', [Str (u ''M'' @ [228] @ u ''nnlich''), Str (u ''keine Angabe'')]),
         (''Q190'', [na, na]),
         (''Q120'', [Num (Fin 1067), Num (Fin 99999)]),
         (''Q191'', [Str (u ''MASTER of Science''), na]),
         (''Q82_1'', [Num (Fin 180), Num (Fin 0)]),
         (''Q83_1'', [Num (Fin 81), Num (Fin 81)]),
         (''Q84'', [na, na]),
         (''Q219_3'', [na, na]),
         (''Q219_4'', [na, na]),
         (''Q243_1'', [na, na]),
         (''Q243_2'', [na, na]),
         (''Q243_3'', [na, na]),
         (''Q243_9'', [na, na]),
         (''Q211'', [Str (u ''Gut''), na]),
         (''Q86'', [Str (u ''1001-1500'' @ [8364]), na]),
         (''Q87'', [Str (u ''500'' @ [8364]), na])]\<rparr>"

text \<open>The same table when nobody gave a vocational qualification.\<close>

definition example_no_text :: frame where
  "example_no_text = example_df\<lparr>columns := AList.update ''Q191'' [na, na] (columns example_df)\<rparr>"

definition example_original :: frame where
  "example_original =
     \<lparr>index_len = 4,
      columns = [(''Q1'', [Str (u ''Leben Sie mit anderen?''), Str (u ''ImportId''),
                          Str (u ''Nein''), Str (u ''Ja'')])]\<rparr>"

definition example_num_str :: "string \<Rightarrow> float64 \<Rightarrow> pystr" where
  "example_num_str c x = []"


text \<open>
  The region file of the small run is not valid UTF-8 and is read as Latin-1. It has an
  index column without a name, three rows for two postal codes (the rows of \<open>1067\<close> are
  equal but for the respondent) and a column without any value.
\<close>

definition example_regions :: frame where
  "example_regions =
     \<lparr>index_len = 3,
      columns =
        [(''Unnamed: 0'', [Num (Fin 0), Num (Fin 1), Num (Fin 2)]),
         (''ResponseId'', [Str (u ''R_7''), Str (u ''R_1''), Str (u ''R_9'')]),
         (''PLZ'', [Num (Fin 10115), Num (Fin 1067), Num (Fin 1067)]),
         (''Bundesland'', [Str (u ''Berlin''), Str (u ''Sachsen''), Str (u ''Sachsen'')]),
         (''Kreis'', [Str (u ''Berlin''), Str (u ''Dresden''), Str (u ''Dresden'')]),
         (''Stadt.Dummy'', [Num (Fin 1), Num (Fin 1), Num (Fin 1)]),
         (''EW.km2'', [Num (Fin 4000), Num (Fin 1700), Num (Fin 1700)]),
         (''Rural.Dummy'', [Num (Fin 0), Num (Fin 0), Num (Fin 0)]),
         (''EW'', [Num (Fin 3600000), Num (Fin 550000), Num (Fin 550000)]),
         (''Metropol.Dummy'', [Num (Fin 1), Num (Fin 0), Num (Fin 0)]),
         (''Notiz'', [na, na, na])]\<rparr>"

definition example_read_csv :: "encoding \<Rightarrow> error + frame" where
  "example_read_csv enc = (if enc = UTF8 then Inl UnicodeDecodeError else Inr example_regions)"

text \<open>
  Two region rows of one postal code that differ: the first has no federal state, the
  second has one and another district.
\<close>

definition example_duplicates :: frame where
  "example_duplicates =
     \<lparr>index_len = 2,
      columns =
        [(''PLZ'', [Num (Fin 1067), Num (Fin 1067)]),
         (''Bundesland'', [na, Str (u ''Sachsen'')]),
         (''Kreis'', [Str (u ''Dresden''), Str (u ''Leipzig'')])]\<rparr>"

text \<open>The raw table of a survey without respondents: the same columns and no row.\<close>

definition example_empty :: frame where
  "example_empty = \<lparr>index_len = 0, columns = map (\<lambda>cs. (fst cs, [])) (columns example_df)\<rparr>"

text \<open>The cleaned table of the small run.\<close>

definition example_cleaned :: frame where
  "example_cleaned =
     \<lparr>index_len = 2,
      columns =
        [(''ResponseId'', [Str (u ''R_1''), Str (u ''R_2'')]),
         (''lives_with_others'', [Str (u ''No''), Str (u ''Yes'')]),
         (''respondent_work_hours'', [Num (Fin (51 / 2)), na]),
         (''respondent_work_hours_cat'', [Str (u ''21-30 Stunden''), na]),
         (''num_children'', [Num (Fin 0), na]),
         (''num_partners'', [Num (Fin 1), na]),
         (''num_parents'', [Num (Fin 0), Num (Fin 2)]),
         (''num_siblings'', [Num (Fin 0), na]),
         (''age'', [Num (Fin 41), Num (Fin 29)]),
         (''gender'', [Str (u ''Male''), na]),
         (''gender_code'', [Num (Fin 1), na]),
         (''education_level'', [na, na]),
         (''education_cat'', [na, na]),
         (''zip_code'', [Num (Fin 1067), Num (Fin 99999)]),
         (''vocational_qualification'', [Str (u ''MASTER of Science''), na]),
         (''has_university_degree'', [Num (Fin 1), Num (Fin 0)]),
         (''height_cm'', [Num (Fin 180), Num (Fin 0)]),
         (''weight_kg'', [Num (Fin 81), Num (Fin 81)]),
         (''bmi'', [Num (Fin 25), Num PInf]),
         (''risk_tolerance'', [na, na]),
         (''personal_income_change'', [na, na]),
         (''partner_income_change'', [na, na]),
         (''task_share_food'', [na, na]),
         (''task_share_childcare'', [na, na]),
         (''task_share_education'', [na, na]),
         (''task_share_housework'', [na, na]),
         (''health_status'', [Num (Fin 4), na]),
         (''health_status_cat'', [Str (u ''Gut''), na]),
         (''household_income'', [Num (Fin (2501 / 2)), na]),
         (''personal_income'', [Num (Fin 500), na]),
         (''household_income_cat'', [Str (u ''1001-1500'' @ [8364]), na]),
         (''personal_income_cat'', [Str (u ''500'' @ [8364]), na])]\<rparr>"


text \<open>The merged table of the small run.\<close>

definition example_merged :: frame where
  "example_merged =
     \<lparr>index_len = 2,
      columns =
        columns example_cleaned @
        [(''federal_state'', [Str (u ''Sachsen''), na]),
         (''district'', [Str (u ''Dresden''), na]),
         (''is_city'', [Num (Fin 1), na]),
         (''population_density'', [Num (Fin 1700), na]),
         (''is_rural'', [Num (Fin 0), na]),
         (''population'', [Num (Fin 550000), na]),
         (''is_metropolitan'', [Num (Fin 0), na])]\<rparr>"

section \<open>Facts about the model\<close>

subsection \<open>Rounding\<close>

lemma bitlen_powi_bounds:
  assumes "0 < p"
  shows "(2::rat) powi (bitlen p - 1) \<le> of_int p" and "of_int p < (2::rat) powi (bitlen p)"
proof -
  from bitlen_bounds [OF assms]
  have lo: "2 ^ nat (bitlen p - 1) \<le> p" and hi: "p < 2 ^ nat (bitlen p)" by simp_all
  have b1: "1 \<le> bitlen p" using assms by (simp add: bitlen_alt_def)
  have "(2::rat) powi (bitlen p - 1) = of_int (2 ^ nat (bitlen p - 1))"
    using b1 by (simp add: power_int_def)
  also have "\<dots> \<le> of_int p" using lo by (simp only: of_int_le_iff)
  finally show "(2::rat) powi (bitlen p - 1) \<le> of_int p" .
  have "(of_int p :: rat) < of_int (2 ^ nat (bitlen p))" using hi by (simp only: of_int_less_iff)
  also have "\<dots> = (2::rat) powi (bitlen p)" using b1 by (simp add: power_int_def)
  finally show "of_int p < (2::rat) powi (bitlen p)" .
qed

lemma ilog2_bounds:
  assumes "0 < x"
  shows "2 powi (ilog2 x) \<le> x" and "x < 2 powi (ilog2 x + 1)"
proof -
  obtain p q where pq: "quotient_of x = (p, q)" by force
  have q: "0 < q" using pq by (rule quotient_of_denom_pos)
  have x: "x = of_int p / of_int q" using pq by (rule quotient_of_div)
  have p: "0 < p" using assms q x by (simp add: zero_less_divide_iff)
  define a where "a = bitlen p"
  define b where "b = bitlen q"
  note pb = bitlen_powi_bounds [OF p, folded a_def]
  note qb = bitlen_powi_bounds [OF q, folded b_def]
  have qpos: "(0::rat) < of_int q" using q by simp
  have up: "x < 2 powi (a - b + 1)"
  proof -
    have "x < 2 powi a / of_int q" unfolding x using pb(2) qpos by (simp add: divide_strict_right_mono)
    also have "\<dots> \<le> 2 powi a / 2 powi (b - 1)"
      using qb(1) q by (intro divide_left_mono) (simp_all add: zero_less_mult_iff)
    also have "\<dots> = 2 powi (a - b + 1)" by (simp add: power_int_diff [symmetric] algebra_simps)
    finally show ?thesis .
  qed
  have lo: "2 powi (a - b - 1) < x"
  proof -
    have "(2::rat) powi (a - b - 1) = 2 powi (a - 1) / 2 powi b"
      by (simp add: power_int_diff [symmetric] algebra_simps)
    also have "\<dots> < 2 powi (a - 1) / of_int q"
      using qb(2) qpos by (intro divide_strict_left_mono) simp_all
    also have "\<dots> \<le> x" unfolding x using pb(1) qpos by (simp add: divide_right_mono)
    finally show ?thesis .
  qed
  have il: "ilog2 x = (if 2 powi (a - b) \<le> x then a - b else a - b - 1)"
    by (simp add: ilog2_def pq a_def b_def Let_def)
  show "2 powi (ilog2 x) \<le> x" using lo by (simp add: il)
  show "x < 2 powi (ilog2 x + 1)" using up by (auto simp add: il not_le)
qed

lemma ilog2_unique:
  assumes "2 powi e \<le> x" and "x < 2 powi (e + 1)"
  shows "ilog2 x = e"
proof -
  have pos: "0 < x" using assms(1) by (rule less_le_trans [rotated]) simp
  note b = ilog2_bounds [OF pos]
  have "\<not> e + 1 \<le> ilog2 x"
  proof
    assume "e + 1 \<le> ilog2 x"
    then have "(2::rat) powi (e + 1) \<le> 2 powi (ilog2 x)" by (intro power_int_increasing) simp_all
    with b(1) assms(2) show False by simp
  qed
  moreover have "\<not> ilog2 x + 1 \<le> e"
  proof
    assume "ilog2 x + 1 \<le> e"
    then have "(2::rat) powi (ilog2 x + 1) \<le> 2 powi e" by (intro power_int_increasing) simp_all
    with b(2) assms(1) show False by simp
  qed
  ultimately show ?thesis by simp
qed

lemma round_half_even_nearest:
  assumes "\<bar>y - of_int n\<bar> < 1 / 2"
  shows "round_half_even y = n"
proof -
  have fl: "of_int \<lfloor>y\<rfloor> \<le> y" "y < of_int \<lfloor>y\<rfloor> + 1" by linarith+
  have a: "y - of_int n < 1 / 2" "of_int n - y < 1 / 2" using assms by linarith+
  have "\<lfloor>y\<rfloor> = n \<or> \<lfloor>y\<rfloor> = n - 1" using assms by linarith
  then show ?thesis
  proof
    assume f: "\<lfloor>y\<rfloor> = n"
    then show ?thesis using a by (simp add: round_half_even_def Let_def)
  next
    assume f: "\<lfloor>y\<rfloor> = n - 1"
    then have "1 / 2 < y - of_int \<lfloor>y\<rfloor>" using a by simp
    then show ?thesis using f by (simp add: round_half_even_def Let_def)
  qed
qed

lemma round_half_even_of_int [simp]: "round_half_even (of_int n) = n"
  by (rule round_half_even_nearest) simp

lemma fl_round_nearest:
  assumes "2 powi e \<le> \<bar>x\<bar>" and "\<bar>x\<bar> < 2 powi (e + 1)" and "- 1022 \<le> e"
    and "\<bar>x / 2 powi (e - 52) - of_int n\<bar> < 1 / 2"
    and "\<bar>of_int n * (2::rat) powi (e - 52)\<bar> < 2 ^ 1024"
  shows "fl_round x = Fin (of_int n * 2 powi (e - 52))"
proof -
  have nz: "x \<noteq> 0"
  proof
    assume "x = 0"
    with assms(1) have "(2::rat) powi e \<le> 0" by simp
    moreover have "(0::rat) < 2 powi e" by (rule zero_less_power_int) simp
    ultimately show False by linarith
  qed
  have il: "ilog2 \<bar>x\<bar> = e" using assms(1,2) by (rule ilog2_unique)
  have rn: "round_half_even (x / 2 powi (e - 52)) = n" using assms(4) by (rule round_half_even_nearest)
  show ?thesis using nz assms(3,5) by (simp add: fl_round_def il rn Let_def max_def not_le)
qed

subsection \<open>Exact results of the rounding\<close>

lemma fl_round_exact:
  assumes x: "x = of_int m * 2 powi j" and m: "\<bar>m\<bar> < 2 ^ 53" and j: "- 1074 \<le> j"
    and fin: "\<bar>x\<bar> < 2 ^ 1024"
  shows "fl_round x = Fin x"
proof (cases "x = 0")
  case True
  then show ?thesis by (simp add: fl_round_def)
next
  case False
  define e where "e = max (ilog2 \<bar>x\<bar>) (- 1022)"
  have pos: "0 < \<bar>x\<bar>" using False by simp
  have lo: "2 powi (ilog2 \<bar>x\<bar>) \<le> \<bar>x\<bar>" using pos by (rule ilog2_bounds)
  have "\<bar>x\<bar> = of_int \<bar>m\<bar> * 2 powi j" by (simp add: x abs_mult)
  also have "\<dots> < 2 ^ 53 * 2 powi j"
  proof -
    have "(of_int \<bar>m\<bar> :: rat) < of_int (2 ^ 53)" using m by (simp only: of_int_less_iff)
    then show ?thesis by (simp add: zero_less_power_int)
  qed
  also have "\<dots> = 2 powi (53 + j)" by (simp add: power_int_add)
  finally have "2 powi (ilog2 \<bar>x\<bar>) < (2::rat) powi (53 + j)" using lo by simp
  then have "ilog2 \<bar>x\<bar> < 53 + j"
    by (metis linorder_not_less one_le_numeral power_int_increasing)
  then have ej: "e - 52 \<le> j" using j by (simp add: e_def)
  define k where "k = nat (j - (e - 52))"
  have jk: "j = (e - 52) + int k" using ej by (simp add: k_def)
  have q: "x / 2 powi (e - 52) = of_int (m * 2 ^ k)"
    by (simp add: x jk power_int_add)
  have r: "round_half_even (x / 2 powi (e - 52)) = m * 2 ^ k"
    unfolding q by (rule round_half_even_of_int)
  have rx: "of_int (m * 2 ^ k) * 2 powi (e - 52) = x"
    by (simp add: x jk power_int_add)
  show ?thesis
    using False fin by (simp add: fl_round_def Let_def e_def [symmetric] r rx del: of_int_mult of_int_power)
qed

lemma of_nat_less_pow2:
  fixes n :: nat
  assumes "n < 2 ^ k"
  shows "int n < 2 ^ k" and "(of_nat n :: rat) < 2 ^ k"
proof -
  have "int n < int (2 ^ k)" using assms by (simp only: of_nat_less_iff)
  then show "int n < 2 ^ k" by simp
  have "(of_nat n :: rat) < of_nat (2 ^ k)" using assms by (simp only: of_nat_less_iff)
  then show "(of_nat n :: rat) < 2 ^ k" by simp
qed

lemma float_of_digits_exact:
  assumes "nat_of_digits ds < 2 ^ 53"
  shows "float_of_digits ds = Fin (of_nat (nat_of_digits ds))"
proof -
  note b = of_nat_less_pow2 [OF assms]
  have "(2::rat) ^ 53 < 2 ^ 1024" by (rule power_strict_increasing) simp_all
  with b(2) have "\<bar>of_nat (nat_of_digits ds) :: rat\<bar> < 2 ^ 1024" by simp
  then show ?thesis
    unfolding float_of_digits_def
    using fl_round_exact [of "of_nat (nat_of_digits ds)" "int (nat_of_digits ds)" 0] b(1) by simp
qed

lemma float_midpoint_exact:
  fixes a b :: nat
  assumes "a < 2 ^ 52" and "b < 2 ^ 52"
  shows "fdiv (fadd (Fin (of_nat a)) (Fin (of_nat b))) (Fin 2) = Fin ((of_nat a + of_nat b) / 2)"
proof -
  have ab: "a + b < 2 ^ 53" using assms by simp
  note i = of_nat_less_pow2 [OF ab]
  have big: "(2::rat) ^ 53 < 2 ^ 1024" by (rule power_strict_increasing) simp_all
  have r: "\<bar>of_nat a + of_nat b :: rat\<bar> < 2 ^ 1024" using i(2) big by simp
  have r2: "\<bar>(of_nat a + of_nat b) / 2 :: rat\<bar> < 2 ^ 1024" using i(2) big by simp
  have s: "fl_round (of_nat a + of_nat b) = Fin (of_nat a + of_nat b)"
    using fl_round_exact [of "of_nat a + of_nat b" "int (a + b)" 0] i(1) r by simp
  have h: "fl_round ((of_nat a + of_nat b) / 2) = Fin ((of_nat a + of_nat b) / 2)"
    using fl_round_exact [of "(of_nat a + of_nat b) / 2" "int (a + b)" "- 1"] i(1) r2 by simp
  show ?thesis by (simp add: s h)
qed

text \<open>Rules that evaluate the rounding of a numeral.\<close>

lemma fl_round_zero [simp]: "fl_round 0 = Fin 0"
  by (simp add: fl_round_def)

lemma numeral_below_overflow:
  assumes "numeral k < (2::int) ^ 53"
  shows "\<bar>numeral k :: rat\<bar> < 2 ^ 1024" and "\<bar>numeral k / 2 :: rat\<bar> < 2 ^ 1024"
proof -
  define B :: rat where "B = 2 ^ 1024"
  have "(of_int (numeral k) :: rat) < of_int (2 ^ 53)" using assms by (simp only: of_int_less_iff)
  then have "(numeral k :: rat) < 2 ^ 53" by simp
  also have "(2::rat) ^ 53 < B" unfolding B_def by (rule power_strict_increasing) simp_all
  finally have kB: "(numeral k :: rat) < B" .
  have "(0::rat) < numeral k" by (rule zero_less_numeral)
  then have h: "(numeral k / 2 :: rat) \<le> numeral k" by linarith
  have "\<bar>numeral k :: rat\<bar> < B" using kB by simp
  then show "\<bar>numeral k :: rat\<bar> < 2 ^ 1024" unfolding B_def .
  have "\<bar>numeral k / 2 :: rat\<bar> = numeral k / 2" by simp
  also have "\<dots> < B" using h kB by (rule le_less_trans)
  finally show "\<bar>numeral k / 2 :: rat\<bar> < 2 ^ 1024" unfolding B_def .
qed

lemma fl_round_numeral:
  assumes "numeral k < (2::int) ^ 53"
  shows "fl_round (numeral k) = Fin (numeral k)"
proof -
  have "\<bar>numeral k :: int\<bar> < 2 ^ 53" using assms by simp
  then show ?thesis
    using fl_round_exact [of "numeral k" "numeral k" 0] numeral_below_overflow(1) [OF assms]
    by simp
qed

lemma fl_round_half_numeral:
  assumes "numeral k < (2::int) ^ 53"
  shows "fl_round (numeral k / 2) = Fin (numeral k / 2)"
proof -
  have "\<bar>numeral k :: int\<bar> < 2 ^ 53" using assms by simp
  then show ?thesis
    using fl_round_exact [of "numeral k / 2" "numeral k" "- 1"] numeral_below_overflow(2) [OF assms]
    by simp
qed

lemma fl_round_9_5: "fl_round (9 / 5) = Fin (8106479329266893 / 4503599627370496)"
  using fl_round_nearest [of 0 "9 / 5" 8106479329266893] by simp

lemma fl_round_square_9_5:
  "fl_round (65715007115831415416180825873449 / 20282409603651670423947251286016) =
   Fin (1823957849085051 / 562949953421312)"
  using fl_round_nearest
    [of 1 "65715007115831415416180825873449 / 20282409603651670423947251286016" 7295831396340204]
  by simp

lemma fl_round_81_by_square:
  "fl_round (15199648742375424 / 607985949695017) = Fin 25"
  using fl_round_nearest [of 4 "15199648742375424 / 607985949695017" 7036874417766400] by simp

text \<open>Rounding a binary64 again changes nothing, so a computed cell is converted to itself.\<close>

lemma round_half_even_bounds:
  "round_half_even y = \<lfloor>y\<rfloor> \<or> round_half_even y = \<lfloor>y\<rfloor> + 1"
  by (simp add: round_half_even_def Let_def)

lemma round_half_even_abs_le:
  assumes "\<bar>y\<bar> < of_int N"
  shows "\<bar>round_half_even y\<bar> \<le> N"
proof -
  have "y < of_int N" "- of_int N < y" using assms by linarith+
  then have "\<lfloor>y\<rfloor> < N" "- N \<le> \<lfloor>y\<rfloor>" by linarith+
  with round_half_even_bounds [of y] show ?thesis by linarith
qed

lemma fl_round_idem:
  assumes "fl_round x = Fin r"
  shows "fl_round r = Fin r"
proof (cases "x = 0")
  case True
  with assms show ?thesis by (simp add: fl_round_def)
next
  case False
  define e where "e = max (ilog2 \<bar>x\<bar>) (- 1022)"
  define q :: rat where "q = 2 powi (e - 52)"
  define n where "n = round_half_even (x / q)"
  have qpos: "0 < q" unfolding q_def by (rule zero_less_power_int) simp
  from assms False have r: "r = of_int n * q" and fin: "\<bar>r\<bar> < 2 ^ 1024"
    by (simp_all add: fl_round_def Let_def e_def q_def n_def split: if_splits)
  have pos: "0 < \<bar>x\<bar>" using False by simp
  have "\<bar>x\<bar> < 2 powi (ilog2 \<bar>x\<bar> + 1)" using ilog2_bounds(2) [OF pos] .
  also have "\<dots> \<le> 2 powi (e + 1)" unfolding e_def by (rule power_int_increasing) simp_all
  finally have xb: "\<bar>x\<bar> < 2 powi (e + 1)" .
  have split: "(2::rat) powi (e + 1) = 2 ^ 53 * q"
  proof -
    have "e + 1 = 53 + (e - 52)" by simp
    then have "(2::rat) powi (e + 1) = 2 powi (53 + (e - 52))" by (simp only:)
    also have "\<dots> = 2 powi 53 * 2 powi (e - 52)" by (rule power_int_add) simp
    finally show ?thesis by (simp add: q_def)
  qed
  have "\<bar>x / q\<bar> = \<bar>x\<bar> / q" using qpos by (simp add: abs_divide)
  also have "\<dots> < 2 ^ 53" using xb qpos unfolding split by (simp add: divide_less_eq)
  finally have "\<bar>x / q\<bar> < of_int (2 ^ 53)" by simp
  then have nb: "\<bar>n\<bar> \<le> 2 ^ 53" unfolding n_def by (rule round_half_even_abs_le)
  have j: "- 1074 \<le> e - 52" unfolding e_def by simp
  show ?thesis
  proof (cases "\<bar>n\<bar> < 2 ^ 53")
    case True
    from fl_round_exact [OF r [unfolded q_def] True j fin] show ?thesis .
  next
    case False
    with nb have "\<bar>n\<bar> = 2 ^ 53" by simp
    then have "n = 2 ^ 53 \<or> n = - (2 ^ 53)" by linarith
    then have "r = of_int 1 * 2 powi (e + 1) \<or> r = of_int (- 1) * 2 powi (e + 1)"
      unfolding r split by auto
    then show ?thesis
    proof
      assume a: "r = of_int 1 * 2 powi (e + 1)"
      show ?thesis by (rule fl_round_exact [OF a _ _ fin]) (use j in simp_all)
    next
      assume a: "r = of_int (- 1) * 2 powi (e + 1)"
      show ?thesis by (rule fl_round_exact [OF a _ _ fin]) (use j in simp_all)
    qed
  qed
qed

lemma as_float64_fl_round [simp]: "as_float64 (fl_round x) = fl_round x"
proof (cases "fl_round x")
  case (Fin r)
  with fl_round_idem [OF Fin] show ?thesis by (simp add: as_float64_def)
qed (simp_all add: as_float64_def)

lemma as_float64_fdiv [simp]: "as_float64 (fdiv a b) = fdiv a b"
  by (cases a; cases b) (simp_all add: signed_inf_def, simp_all add: as_float64_def)

lemma as_float64_fmul [simp]: "as_float64 (fmul a b) = fmul a b"
  by (cases a; cases b) (simp_all add: signed_inf_def, simp_all add: as_float64_def)

lemma as_float64_idem [simp]: "as_float64 (as_float64 a) = as_float64 a"
proof (cases a)
  case (Fin x)
  have "as_float64 (Fin x) = fl_round x" by (simp add: as_float64_def)
  then show ?thesis using Fin by simp
qed (simp_all add: as_float64_def)

lemma as_float64_numeral:
  "numeral k < (2::int) ^ 53 \<Longrightarrow> as_float64 (Fin (numeral k)) = Fin (numeral k)"
  by (simp add: as_float64_def fl_round_numeral)

lemma as_float64_zero [simp]: "as_float64 (Fin 0) = Fin 0"
  by (simp add: as_float64_def)

lemma as_float64_square_9_5:
  "as_float64 (Fin (1823957849085051 / 562949953421312)) =
   Fin (1823957849085051 / 562949953421312)"
  using as_float64_fl_round
    [of "65715007115831415416180825873449 / 20282409603651670423947251286016"]
  by (simp only: fl_round_square_9_5)

lemma round_half_even_tie:
  assumes "y = of_int n + 1 / 2" and "even n"
  shows "round_half_even y = n"
proof -
  have "\<lfloor>y\<rfloor> = n" unfolding assms(1) by linarith
  then show ?thesis using assms by (simp add: round_half_even_def Let_def)
qed

lemma fl_round_tie_even:
  assumes "2 powi e \<le> \<bar>x\<bar>" and "\<bar>x\<bar> < 2 powi (e + 1)" and "- 1022 \<le> e"
    and "x / 2 powi (e - 52) = of_int n + 1 / 2" and "even n"
    and "\<bar>of_int n * (2::rat) powi (e - 52)\<bar> < 2 ^ 1024"
  shows "fl_round x = Fin (of_int n * 2 powi (e - 52))"
proof -
  have nz: "x \<noteq> 0"
  proof
    assume "x = 0"
    with assms(1) have "(2::rat) powi e \<le> 0" by simp
    moreover have "(0::rat) < 2 powi e" by (rule zero_less_power_int) simp
    ultimately show False by linarith
  qed
  have il: "ilog2 \<bar>x\<bar> = e" using assms(1,2) by (rule ilog2_unique)
  have rn: "round_half_even (x / 2 powi (e - 52)) = n"
    using assms(4,5) by (rule round_half_even_tie)
  show ?thesis using nz assms(3,6) by (simp add: fl_round_def il rn Let_def max_def not_le)
qed

text \<open>
  A height of \<open>2^53 + 1\<close> in an integer column: the cell is halfway between two binary64
  values and is divided as \<open>2^53\<close>.
\<close>

lemma as_float64_above_2_53: "as_float64 (Fin 9007199254740993) = Fin 9007199254740992"
  unfolding as_float64_def using fl_round_tie_even [of 53 9007199254740993 4503599627370496]
  by simp

lemma fl_round_2_53_by_100:
  "fl_round (2251799813685248 / 25) = Fin (5764607523034235 / 64)"
  using fl_round_nearest [of 46 "2251799813685248 / 25" 5764607523034235] by simp

lemma fl_round_square_2_53_by_100:
  "fl_round (33230699894622898206100982035225 / 4096) = Fin 8112963841460668558366212096"
  using fl_round_nearest [of 92 "33230699894622898206100982035225 / 4096" 7378697629483821]
  by simp

lemma fl_round_81_by_large_square:
  "fl_round (9 / 901440426828963173151801344) =
   Fin (50625 / 5070602400912917605986812821504)"
  using fl_round_nearest [of "- 87" "9 / 901440426828963173151801344" 6957847019520000] by simp

lemma as_float64_large_square:
  "as_float64 (Fin 8112963841460668558366212096) = Fin 8112963841460668558366212096"
  using as_float64_fl_round [of "33230699894622898206100982035225 / 4096"]
  by (simp only: fl_round_square_2_53_by_100)

subsection \<open>Digits\<close>

lemma is_digit_below_1632: "c < 1632 \<Longrightarrow> is_digit c \<longleftrightarrow> 48 \<le> c \<and> c \<le> 57"
  by (auto simp add: is_digit_def decimal_value_def decimal_digit_blocks_def)

lemma decimal_value_ascii: "48 \<le> c \<Longrightarrow> c \<le> 57 \<Longrightarrow> decimal_value c = Some (c - 48)"
  by (simp add: decimal_value_def decimal_digit_blocks_def)

lemma is_digit_euro: "\<not> is_digit 8364"
  by (simp add: is_digit_def decimal_value_def decimal_digit_blocks_def)

subsection \<open>The search for a substring\<close>

lemma match_here_ci_iff:
  "match_here_ci p t \<longleftrightarrow> (\<exists>m suf. t = m @ suf \<and> list_all2 ci_match p m)"
proof (induction p t rule: match_here_ci.induct)
  case (1 cs)
  then show ?case by simp
next
  case (2 p ps)
  then show ?case by (simp add: list_all2_Cons1)
next
  case (3 p ps c cs)
  show ?case
  proof
    assume "match_here_ci (p # ps) (c # cs)"
    with 3 obtain m suf where "ci_match p c" "cs = m @ suf" "list_all2 ci_match ps m" by auto
    then have "c # cs = (c # m) @ suf \<and> list_all2 ci_match (p # ps) (c # m)" by simp
    then show "\<exists>m suf. c # cs = m @ suf \<and> list_all2 ci_match (p # ps) m" by blast
  next
    assume "\<exists>m suf. c # cs = m @ suf \<and> list_all2 ci_match (p # ps) m"
    then obtain m suf where m: "c # cs = m @ suf" "list_all2 ci_match (p # ps) m" by blast
    from m(2) obtain x xs where x: "m = x # xs" "ci_match p x" "list_all2 ci_match ps xs"
      by (auto simp add: list_all2_Cons1)
    with m(1) have "x = c" "cs = xs @ suf" by simp_all
    with x 3 show "match_here_ci (p # ps) (c # cs)" by auto
  qed
qed

lemma search_alt_ci_iff:
  "search_alt_ci alts t \<longleftrightarrow> (\<exists>p\<in>set alts. occurs_ci p t)"
proof (induction t)
  case Nil
  show ?case
    by (auto simp add: list_ex_iff match_here_ci_iff occurs_ci_def)
next
  case (Cons c cs)
  have here: "match_here_ci p (c # cs) \<or> occurs_ci p cs \<longleftrightarrow> occurs_ci p (c # cs)" for p
  proof
    assume "match_here_ci p (c # cs) \<or> occurs_ci p cs"
    then show "occurs_ci p (c # cs)"
    proof
      assume "match_here_ci p (c # cs)"
      then obtain m suf where "c # cs = [] @ m @ suf" "list_all2 ci_match p m"
        by (auto simp add: match_here_ci_iff)
      then show ?thesis unfolding occurs_ci_def by blast
    next
      assume "occurs_ci p cs"
      then obtain pre m suf where "cs = pre @ m @ suf" "list_all2 ci_match p m"
        unfolding occurs_ci_def by blast
      then have "c # cs = (c # pre) @ m @ suf \<and> list_all2 ci_match p m" by simp
      then show ?thesis unfolding occurs_ci_def by blast
    qed
  next
    assume "occurs_ci p (c # cs)"
    then obtain pre m suf where t: "c # cs = pre @ m @ suf" and m: "list_all2 ci_match p m"
      unfolding occurs_ci_def by blast
    show "match_here_ci p (c # cs) \<or> occurs_ci p cs"
    proof (cases pre)
      case Nil
      with t m have "match_here_ci p (c # cs)" by (auto simp add: match_here_ci_iff)
      then show ?thesis ..
    next
      case (Cons x xs)
      with t have "cs = xs @ m @ suf" by simp
      with m have "occurs_ci p cs" unfolding occurs_ci_def by blast
      then show ?thesis ..
    qed
  qed
  show ?case
    using Cons.IH here by (auto simp add: list_ex_iff)
qed

text \<open>
  For the letters of the six substrings, the comparison of \<open>re.IGNORECASE\<close> is the one of
  the specification: the code point of the text is one of the forms of the letter.
\<close>

lemma degree_pattern_letters:
  "p \<in> set degree_patterns \<Longrightarrow> pc \<in> set p \<Longrightarrow>
   (65 \<le> pc \<and> pc \<le> 90) \<or> (97 \<le> pc \<and> pc \<le> 122) \<or> pc = 228"
  by (auto simp add: degree_patterns_def u_def)

lemma unicode_tolower_small:
  "(97 \<le> lo \<and> lo \<le> 122) \<or> lo = 228 \<Longrightarrow>
   unicode_tolower c = lo \<longleftrightarrow>
     c = lo \<or> c = lo - 32 \<or> (lo = 105 \<and> c = 304) \<or> (lo = 107 \<and> c = 8490)"
  unfolding unicode_tolower_def by (auto split: if_splits)

lemma unicode_tolower_fixes:
  "unicode_tolower c = 305 \<longleftrightarrow> c = 305" "unicode_tolower c = 383 \<longleftrightarrow> c = 383"
  unfolding unicode_tolower_def by (auto split: if_splits)


lemma ci_match_letter_forms:
  assumes "(65 \<le> pc \<and> pc \<le> 90) \<or> (97 \<le> pc \<and> pc \<le> 122) \<or> pc = 228 \<or> pc = 196"
  shows "ci_match pc c \<longleftrightarrow> c \<in> set (letter_forms pc)"
proof -
  define lo where "lo = unicode_tolower pc"
  have lo: "(97 \<le> lo \<and> lo \<le> 122) \<or> lo = 228"
    and small: "(if (65 \<le> pc \<and> pc \<le> 90) \<or> pc = 196 then pc + 32 else pc) = lo"
    using assms unfolding lo_def unicode_tolower_def by auto
  have "ci_match pc c \<longleftrightarrow>
      unicode_tolower c = lo \<or> (lo = 105 \<and> unicode_tolower c = 305) \<or>
      (lo = 115 \<and> unicode_tolower c = 383)"
    by (auto simp add: ci_match_def Let_def lo_def ignorecase_fixes_def)
  also have "\<dots> \<longleftrightarrow> c = lo \<or> c = lo - 32 \<or> (lo = 105 \<and> (c = 304 \<or> c = 305)) \<or>
      (lo = 107 \<and> c = 8490) \<or> (lo = 115 \<and> c = 383)"
    unfolding unicode_tolower_small [OF lo] unicode_tolower_fixes by blast
  also have "\<dots> \<longleftrightarrow> c \<in> set (letter_forms pc)"
    unfolding letter_forms_def small Let_def using lo by auto
  finally show ?thesis .
qed

lemma occurs_ci_degree_pattern:
  assumes "p \<in> set degree_patterns"
  shows "occurs_ci p t \<longleftrightarrow> contains_ci p t"
proof -
  have letters: "ci_match pc c \<longleftrightarrow> c \<in> set (letter_forms pc)" if "pc \<in> set p" for pc c
  proof -
    from degree_pattern_letters [OF assms that]
    have "(65 \<le> pc \<and> pc \<le> 90) \<or> (97 \<le> pc \<and> pc \<le> 122) \<or> pc = 228 \<or> pc = 196" by blast
    then show ?thesis by (rule ci_match_letter_forms)
  qed
  have "list_all2 ci_match p m \<longleftrightarrow> list_all2 (\<lambda>pc c. c \<in> set (letter_forms pc)) p m" for m
    unfolding list_all2_conv_all_nth using letters by auto
  then show ?thesis by (simp add: occurs_ci_def contains_ci_def)
qed

lemma search_degree_patterns_iff:
  "search_alt_ci degree_patterns t \<longleftrightarrow> (\<exists>p\<in>set degree_patterns. contains_ci p t)"
  by (simp add: search_alt_ci_iff occurs_ci_degree_pattern)

subsection \<open>Frames and statements\<close>

lemma and_then_eq_Inr:
  "and_then m f = Inr y \<longleftrightarrow> (\<exists>x. m = Inr x \<and> f x = Inr y)"
  by (cases m) (simp_all add: and_then_def)

lemma and_then_Inl [simp]: "and_then (Inl e) f = Inl e"
  by (simp add: and_then_def)

lemma and_then_Inr [simp]: "and_then (Inr x) f = f x"
  by (simp add: and_then_def)

lemma map_of_update: "map_of (AList.update k v al) k' = (if k' = k then Some v else map_of al k')"
  by (simp add: update_conv')

lemma length_reindex [simp]: "length (reindex n s) = n"
  by (simp add: reindex_def)

lemma reindex_same [simp]: "length s = n \<Longrightarrow> reindex n s = s"
  by (simp add: reindex_def)

lemma setitem_nonempty:
  "0 < index_len df \<Longrightarrow>
   setitem df c s = df\<lparr>columns := AList.update c (reindex (index_len df) s) (columns df)\<rparr>"
  by (simp add: setitem_def)

lemma keeps_assign: "0 < n \<Longrightarrow> c' \<noteq> c \<Longrightarrow> keeps n c (assign c' e)"
  unfolding keeps_def
proof (intro allI impI)
  fix st st'
  assume n: "0 < n" and c: "c' \<noteq> c" and l: "index_len st = n" and a: "assign c' e st = Inr st'"
  from a obtain s where "st' = setitem st c' s"
    by (auto simp add: assign_def and_then_eq_Inr)
  then have "st' = st\<lparr>columns := AList.update c' (reindex (index_len st) s) (columns st)\<rparr>"
    using n l by (simp add: setitem_nonempty)
  then show "index_len st' = n \<and> map_of (columns st') c = map_of (columns st) c"
    using l c by (simp add: map_of_update)
qed

lemma keeps_loc_fillna0: "c' \<noteq> c \<Longrightarrow> keeps n c (loc_fillna0 key c')"
  unfolding keeps_def
proof (intro allI impI)
  fix st st'
  assume c: "c' \<noteq> c" and l: "index_len st = n" and a: "loc_fillna0 key c' st = Inr st'"
  from a obtain v where "st' = st\<lparr>columns := AList.update c' v (columns st)\<rparr>"
    unfolding loc_fillna0_def and_then_eq_Inr by blast
  then show "index_len st' = n \<and> map_of (columns st') c = map_of (columns st) c"
    using l c by (simp add: map_of_update)
qed

lemma run_steps_keeps:
  "list_all (keeps n c) fs \<Longrightarrow> index_len st = n \<Longrightarrow> run_steps fs st = Inr out \<Longrightarrow>
   index_len out = n \<and> map_of (columns out) c = map_of (columns st) c"
proof (induction fs arbitrary: st)
  case Nil
  then show ?case by simp
next
  case (Cons f fs)
  from Cons.prems(3) obtain st' where f: "f st = Inr st'" and r: "run_steps fs st' = Inr out"
    by (auto simp add: and_then_eq_Inr)
  from Cons.prems(1) have k: "keeps n c f" and ks: "list_all (keeps n c) fs" by simp_all
  from k f Cons.prems(2) have s: "index_len st' = n" "map_of (columns st') c = map_of (columns st) c"
    unfolding keeps_def by blast+
  from Cons.IH [OF ks s(1) r] s(2) show ?case by simp
qed

lemma run_steps_at:
  "k < length fs \<Longrightarrow> run_steps fs st = Inr out \<Longrightarrow>
   \<exists>a b. run_steps (take k fs) st = Inr a \<and> (fs ! k) a = Inr b \<and>
         run_steps (drop (Suc k) fs) b = Inr out"
proof (induction fs arbitrary: st k)
  case Nil
  then show ?case by simp
next
  case (Cons f fs)
  from Cons.prems(2) obtain st' where f: "f st = Inr st'" and r: "run_steps fs st' = Inr out"
    by (auto simp add: and_then_eq_Inr)
  show ?case
  proof (cases k)
    case 0
    then show ?thesis using f r by simp
  next
    case (Suc j)
    with Cons.prems(1) have "j < length fs" by simp
    from Cons.IH [OF this r] obtain a b where
      "run_steps (take j fs) st' = Inr a" "(fs ! j) a = Inr b" "run_steps (drop (Suc j) fs) b = Inr out"
      by blast
    then show ?thesis using Suc f by auto
  qed
qed

text \<open>A column assigned at step \<open>k\<close> and kept by the other steps.\<close>

lemma assigned_column:
  assumes run: "run_steps fs st = Inr out" and len: "index_len st = n" and pos: "0 < n"
    and k: "k < length fs" and at: "fs ! k = assign c e"
    and before: "list_all (keeps n []) (take k fs)"
    and after: "list_all (keeps n c) (drop (Suc k) fs)"
  shows "\<exists>s. e = Inr s \<and> index_len out = n \<and> map_of (columns out) c = Some (reindex n s)"
proof -
  from run_steps_at [OF k run] obtain a b where
    a: "run_steps (take k fs) st = Inr a" and b: "(fs ! k) a = Inr b"
    and r: "run_steps (drop (Suc k) fs) b = Inr out" by blast
  from run_steps_keeps [OF before len a] have la: "index_len a = n" by simp
  from b at obtain s where e: "e = Inr s" and bs: "b = setitem a c s"
    by (auto simp add: assign_def and_then_eq_Inr)
  have lb: "index_len b = n" and cb: "map_of (columns b) c = Some (reindex n s)"
    using la pos by (simp_all add: bs setitem_nonempty map_of_update)
  from run_steps_keeps [OF after lb r] cb e show ?thesis by simp
qed


subsection \<open>The run of the cleaner\<close>

lemma getitem_length:
  "wf_frame df \<Longrightarrow> getitem df c = Inr s \<Longrightarrow> length s = index_len df"
proof -
  assume wf: "wf_frame df" and g: "getitem df c = Inr s"
  from g have "map_of (columns df) c = Some s"
    by (simp add: getitem_def split: option.splits)
  then have "(c, s) \<in> set (columns df)" by (rule map_of_SomeD)
  with wf show ?thesis by (auto simp add: wf_frame_def list_all_iff)
qed

lemma getitem_map_of: "getitem df c = Inr s \<longleftrightarrow> map_of (columns df) c = Some s"
  by (simp add: getitem_def split: option.splits)

lemma setitem_first:
  "setitem DataFrame_empty c s = \<lparr>index_len = length s, columns = [(c, s)]\<rparr>"
  by (cases s) (simp_all add: setitem_def DataFrame_empty_def reindex_def)

lemma clean_steps_run:
  assumes H: "clean_exogenous_dataset ns df orig = Inr out" and wf: "wf_frame df"
  shows "\<exists>q1 rid. getitem (iloc_from 2 orig) ''Q1'' = Inr q1 \<and>
           getitem df ''ResponseId'' = Inr rid \<and>
           run_steps (tl (clean_steps ns df q1))
             \<lparr>index_len = index_len df, columns = [(''ResponseId'', rid)]\<rparr> = Inr out"
proof -
  from H obtain q1 where q1: "getitem (iloc_from 2 orig) ''Q1'' = Inr q1"
    and r: "run_steps (clean_steps ns df q1) DataFrame_empty = Inr out"
    unfolding clean_exogenous_dataset_def and_then_eq_Inr by blast
  have hd: "clean_steps ns df q1 =
      assign ''ResponseId'' (getitem df ''ResponseId'') # tl (clean_steps ns df q1)"
    by (simp add: clean_steps_def Let_def)
  from r obtain st1 where s1: "assign ''ResponseId'' (getitem df ''ResponseId'') DataFrame_empty = Inr st1"
    and r1: "run_steps (tl (clean_steps ns df q1)) st1 = Inr out"
    by (subst (asm) hd) (auto simp add: and_then_eq_Inr)
  from s1 obtain rid where rid: "getitem df ''ResponseId'' = Inr rid"
    and st1: "st1 = setitem DataFrame_empty ''ResponseId'' rid"
    by (auto simp add: assign_def and_then_eq_Inr)
  have "length rid = index_len df" using wf rid by (rule getitem_length)
  then have "st1 = \<lparr>index_len = index_len df, columns = [(''ResponseId'', rid)]\<rparr>"
    by (simp add: st1 setitem_first)
  with q1 rid r1 show ?thesis by blast
qed

lemma clean_ResponseId:
  assumes H: "clean_exogenous_dataset ns df orig = Inr out" and wf: "wf_frame df"
    and pos: "0 < index_len df"
  shows "getitem out ''ResponseId'' = getitem df ''ResponseId'' \<and> index_len out = index_len df"
proof -
  from clean_steps_run [OF H wf] obtain q1 rid where
    rid: "getitem df ''ResponseId'' = Inr rid"
    and r: "run_steps (tl (clean_steps ns df q1))
             \<lparr>index_len = index_len df, columns = [(''ResponseId'', rid)]\<rparr> = Inr out"
    by blast
  have "list_all (keeps (index_len df) ''ResponseId'') (tl (clean_steps ns df q1))"
    using pos by (simp add: clean_steps_def Let_def keeps_assign keeps_loc_fillna0)
  from run_steps_keeps [OF this _ r] have "index_len out = index_len df"
    "map_of (columns out) ''ResponseId'' = Some rid" by simp_all
  then show ?thesis using rid by (simp add: getitem_def)
qed


subsection \<open>Filling the rows of a boolean key\<close>

lemma loc_set_length [simp]: "length (loc_set s sel) = length s"
  unfolding loc_set_def by (induction sel arbitrary: s) simp_all

lemma loc_set_nth:
  "distinct (map fst sel) \<Longrightarrow> i < length s \<Longrightarrow>
   loc_set s sel ! i = (case map_of sel i of None \<Rightarrow> s ! i | Some v \<Rightarrow> v)"
  unfolding loc_set_def
proof (induction sel arbitrary: s)
  case Nil
  then show ?case by simp
next
  case (Cons jv sel)
  obtain j v where jv: "jv = (j, v)" by (cases jv)
  from Cons.prems have d: "distinct (map fst sel)" and nj: "j \<notin> fst ` set sel"
    by (simp_all add: jv)
  have i: "i < length (s[j := v])" using Cons.prems(2) by simp
  have none: "map_of sel j = None" using nj by (simp add: map_of_eq_None_iff)
  show ?case using Cons.IH [OF d i] Cons.prems(2) none
    by (cases "i = j") (simp_all add: jv split: option.splits)
qed

lemma map_of_loc_get:
  "map_of (loc_get keep s) i = (if i < length s \<and> keep ! i then Some (s ! i) else None)"
proof -
  have z: "map_of (zip [0..<length s] s) i = (if i < length s then Some (s ! i) else None)"
  proof (cases "i < length s")
    case True
    then show ?thesis
      using map_of_zip_nth [of "[0..<length s]" s i] by simp
  next
    case False
    then have "i \<notin> set [0..<length s]" by simp
    then show ?thesis using False by (simp add: map_of_zip_is_None)
  qed
  have "map_of (filter (\<lambda>iv. keep ! fst iv) xs) i = (if keep ! i then map_of xs i else None)"
    for xs :: "(nat \<times> cell) list"
    by (induction xs) auto
  then show ?thesis by (simp add: loc_get_def z)
qed

lemma map_of_fillna:
  "map_of (fillna f sel) i = map_option (\<lambda>v. if isna v then f else v) (map_of sel i)"
  unfolding fillna_def by (induction sel) auto

lemma distinct_fst_fillna_loc_get: "distinct (map fst (fillna f (loc_get keep s)))"
proof -
  have "map fst (fillna f sel) = map fst sel" for sel
    by (simp add: fillna_def comp_def)
  moreover have "distinct (map fst (loc_get keep s))"
    unfolding loc_get_def by (rule distinct_map_filter) simp
  ultimately show ?thesis by simp
qed

lemma loc_fillna_nth:
  assumes "i < length s"
  shows "loc_set s (fillna f (loc_get keep s)) ! i =
         (if keep ! i \<and> isna (s ! i) then f else s ! i)"
  using assms
  by (simp add: loc_set_nth distinct_fst_fillna_loc_get map_of_fillna map_of_loc_get)

lemma filled_column:
  assumes run: "run_steps fs st = Inr out" and len: "index_len st = n" and pos: "0 < n"
    and j: "j < k" and k: "k < length fs"
    and atj: "fs ! j = assign c e" and atk: "fs ! k = loc_fillna0 key c"
    and before: "list_all (keeps n []) (take j fs)"
    and between: "list_all (keeps n c) (drop (Suc j) (take k fs))"
    and after: "list_all (keeps n c) (drop (Suc k) fs)"
  shows "\<exists>s. e = Inr s \<and> n \<le> length key \<and> index_len out = n \<and>
           map_of (columns out) c =
             Some (loc_set (reindex n s) (fillna (Num (Fin 0)) (loc_get (take n key) (reindex n s))))"
proof -
  from run_steps_at [OF k run] obtain a b where
    a: "run_steps (take k fs) st = Inr a" and b: "(fs ! k) a = Inr b"
    and r: "run_steps (drop (Suc k) fs) b = Inr out" by blast
  have jk: "j < length (take k fs)" using j k by simp
  have atj': "take k fs ! j = assign c e" using j atj by simp
  have before': "list_all (keeps n []) (take j (take k fs))" using j before by (simp add: min_def)
  from assigned_column [OF a len pos jk atj' before' between]
  obtain s where e: "e = Inr s" and la: "index_len a = n"
    and ca: "map_of (columns a) c = Some (reindex n s)" by blast
  from b atk la ca have kl: "n \<le> length key"
    and bb: "b = a\<lparr>columns := AList.update c
        (loc_set (reindex n s) (fillna (Num (Fin 0)) (loc_get (take n key) (reindex n s))))
        (columns a)\<rparr>"
    by (auto simp add: loc_fillna0_def check_bool_indexer_def and_then_eq_Inr getitem_def
        split: if_splits)
  have lb: "index_len b = n" using la bb by simp
  have cb: "map_of (columns b) c =
      Some (loc_set (reindex n s) (fillna (Num (Fin 0)) (loc_get (take n key) (reindex n s))))"
    using bb by (simp add: map_of_update)
  from run_steps_keeps [OF after lb r] cb e kl show ?thesis by simp
qed

subsection \<open>The cleaned table is well formed\<close>

lemma list_all_update:
  "P (k, v) \<Longrightarrow> list_all P al \<Longrightarrow> list_all P (AList.update k v al)"
  by (induction al) auto

lemma wf_frame_update:
  assumes "wf_frame st" and "length v = index_len st"
  shows "wf_frame (st\<lparr>columns := AList.update c v (columns st)\<rparr>)"
  using assms by (simp add: wf_frame_def distinct_update list_all_update)

lemma keeps_frame_assign: "0 < n \<Longrightarrow> keeps_frame n (assign c e)"
  unfolding keeps_frame_def
proof (intro allI impI)
  fix st st'
  assume n: "0 < n" and wf: "wf_frame st" and l: "index_len st = n"
    and a: "assign c e st = Inr st'"
  from a obtain s where "st' = setitem st c s"
    by (auto simp add: assign_def and_then_eq_Inr)
  then have st': "st' = st\<lparr>columns := AList.update c (reindex (index_len st) s) (columns st)\<rparr>"
    using n l by (simp add: setitem_nonempty)
  have "wf_frame st'" unfolding st' using wf by (rule wf_frame_update) simp
  then show "wf_frame st' \<and> index_len st' = n" using l by (simp add: st')
qed

lemma keeps_frame_loc_fillna0: "keeps_frame n (loc_fillna0 key c)"
  unfolding keeps_frame_def
proof (intro allI impI)
  fix st st'
  assume wf: "wf_frame st" and l: "index_len st = n" and a: "loc_fillna0 key c st = Inr st'"
  from a obtain keep s where s: "getitem st c = Inr s"
    and st': "st' = st\<lparr>columns := AList.update c
        (loc_set s (fillna (Num (Fin 0)) (loc_get keep s))) (columns st)\<rparr>"
    unfolding loc_fillna0_def and_then_eq_Inr by blast
  have "length s = index_len st" using wf s by (rule getitem_length)
  then have "wf_frame st'" unfolding st' using wf by (intro wf_frame_update) simp_all
  then show "wf_frame st' \<and> index_len st' = n" using l by (simp add: st')
qed

lemma run_steps_keeps_frame:
  "list_all (keeps_frame n) fs \<Longrightarrow> wf_frame st \<Longrightarrow> index_len st = n \<Longrightarrow>
   run_steps fs st = Inr out \<Longrightarrow> wf_frame out \<and> index_len out = n"
proof (induction fs arbitrary: st)
  case Nil
  then show ?case by simp
next
  case (Cons f fs)
  from Cons.prems(4) obtain st' where f: "f st = Inr st'" and r: "run_steps fs st' = Inr out"
    by (auto simp add: and_then_eq_Inr)
  from Cons.prems(1) have k: "keeps_frame n f" and ks: "list_all (keeps_frame n) fs" by simp_all
  from k f Cons.prems(2,3) have s: "wf_frame st'" "index_len st' = n"
    unfolding keeps_frame_def by blast+
  from Cons.IH [OF ks s r] show ?case .
qed

lemma clean_wf_frame:
  assumes H: "clean_exogenous_dataset ns df orig = Inr out" and wf: "wf_frame df"
    and pos: "0 < index_len df"
  shows "wf_frame out"
proof -
  from clean_steps_run [OF H wf] obtain q1 rid where
    rid: "getitem df ''ResponseId'' = Inr rid"
    and r: "run_steps (tl (clean_steps ns df q1))
             \<lparr>index_len = index_len df, columns = [(''ResponseId'', rid)]\<rparr> = Inr out"
    by blast
  have "length rid = index_len df" using wf rid by (rule getitem_length)
  then have w: "wf_frame \<lparr>index_len = index_len df, columns = [(''ResponseId'', rid)]\<rparr>"
    by (simp add: wf_frame_def)
  have "list_all (keeps_frame (index_len df)) (tl (clean_steps ns df q1))"
    using pos by (simp add: clean_steps_def Let_def keeps_frame_assign keeps_frame_loc_fillna0)
  from run_steps_keeps_frame [OF this w _ r] show ?thesis by simp
qed

subsection \<open>Series arithmetic\<close>

lemma traverse_eq_Inr:
  "traverse f xs = Inr ys \<Longrightarrow>
   length ys = length xs \<and> (\<forall>i<length xs. f (xs ! i) = Inr (ys ! i))"
proof (induction xs arbitrary: ys)
  case Nil
  then show ?case by simp
next
  case (Cons x xs)
  from Cons.prems obtain y zs where y: "f x = Inr y" and zs: "traverse f xs = Inr zs"
    and ys: "ys = y # zs"
    by (auto simp add: and_then_eq_Inr)
  from Cons.IH [OF zs] have l: "length zs = length xs"
    and n: "\<forall>i<length xs. f (xs ! i) = Inr (zs ! i)" by simp_all
  show ?case
  proof (intro conjI allI impI)
    show "length ys = length (x # xs)" using l ys by simp
    fix i assume "i < length (x # xs)"
    then show "f ((x # xs) ! i) = Inr (ys ! i)"
      using y n ys by (cases i) simp_all
  qed
qed

lemma cell_div_eq_Inr:
  "cell_div a b = Inr c \<longleftrightarrow>
   (\<exists>x y. a = Num x \<and> b = Num y \<and> c = Num (fdiv (as_float64 x) (as_float64 y)))"
  by (cases a; cases b) (auto simp add: cell_div_def)

lemma cell_square_eq_Inr:
  "cell_square a = Inr c \<longleftrightarrow> (\<exists>x. a = Num x \<and> c = Num (fmul x x))"
  by (cases a) (auto simp add: cell_square_def)

lemma calculate_bmi_nth:
  assumes c: "calculate_bmi hs ws = Inr bs" and l: "length hs = length ws" and i: "i < length hs"
  shows "length bs = length hs \<and>
         (\<exists>h w. hs ! i = Num h \<and> ws ! i = Num w \<and>
                bs ! i = Num (fdiv (as_float64 w)
                               (fmul (fdiv (as_float64 h) (Fin 100))
                                     (fdiv (as_float64 h) (Fin 100)))))"
proof -
  from c obtain hm sq where hm: "series_div_scalar hs (Fin 100) = Inr hm"
    and sq: "series_pow2 hm = Inr sq" and bs: "series_div ws sq = Inr bs"
    by (auto simp add: calculate_bmi_def and_then_eq_Inr)
  from traverse_eq_Inr [OF hm [unfolded series_div_scalar_def]] i
  have lhm: "length hm = length hs" and hmi: "cell_div (hs ! i) (Num (Fin 100)) = Inr (hm ! i)"
    by simp_all
  from traverse_eq_Inr [OF sq [unfolded series_pow2_def]] i lhm
  have lsq: "length sq = length hs" and sqi: "cell_square (hm ! i) = Inr (sq ! i)"
    by simp_all
  have z: "series_div ws sq = traverse (\<lambda>ab. cell_div (fst ab) (snd ab)) (zip ws sq)"
    using l lsq by (simp add: series_div_def)
  from traverse_eq_Inr [OF bs [unfolded z]] i l lsq
  have lbs: "length bs = length hs" and bsi: "cell_div (ws ! i) (sq ! i) = Inr (bs ! i)"
    by simp_all
  have c: "as_float64 (Fin 100) = Fin 100" by (simp add: as_float64_numeral)
  from hmi obtain h where h: "hs ! i = Num h" "hm ! i = Num (fdiv (as_float64 h) (Fin 100))"
    by (auto simp add: cell_div_eq_Inr c)
  from sqi h have s: "sq ! i =
      Num (fmul (fdiv (as_float64 h) (Fin 100)) (fdiv (as_float64 h) (Fin 100)))"
    by (auto simp add: cell_square_eq_Inr)
  from bsi s obtain w where "ws ! i = Num w"
    "bs ! i = Num (fdiv (as_float64 w)
                    (fmul (fdiv (as_float64 h) (Fin 100)) (fdiv (as_float64 h) (Fin 100))))"
    by (auto simp add: cell_div_eq_Inr)
  with h lbs show ?thesis by blast
qed

lemma bmi_zero_height:
  "\<not> is_finite (fdiv w (fmul (fdiv (Fin 0) (Fin 100)) (fdiv (Fin 0) (Fin 100))))"
  by (cases w) (simp_all add: is_finite_def signed_inf_def)

lemma bmi_180_81:
  "fdiv (Fin 81) (fmul (fdiv (Fin 180) (Fin 100)) (fdiv (Fin 180) (Fin 100))) = Fin 25"
  by (simp add: fl_round_9_5 fl_round_square_9_5 fl_round_81_by_square)

lemma calculate_bmi_above_2_53:
  "calculate_bmi [Num (Fin 9007199254740993)] [Num (Fin 81)] =
   Inr [Num (Fin (50625 / 5070602400912917605986812821504))]"
  by (simp add: calculate_bmi_def series_div_scalar_def series_pow2_def series_div_def
      cell_div_def cell_square_def reindex_def as_float64_numeral as_float64_above_2_53
      as_float64_large_square fl_round_2_53_by_100 fl_round_square_2_53_by_100
      fl_round_81_by_large_square)

subsection \<open>The small run of the cleaner\<close>

lemma calculate_bmi_example:
  "calculate_bmi [Num (Fin 180), Num (Fin 0)] [Num (Fin 81), Num (Fin 81)] =
   Inr [Num (Fin 25), Num PInf]"
  by (simp add: calculate_bmi_def series_div_scalar_def series_pow2_def series_div_def
      cell_div_def cell_square_def reindex_def signed_inf_def as_float64_numeral as_float64_square_9_5
      fl_round_9_5 fl_round_square_9_5 fl_round_81_by_square)

lemmas cleaner_defs =
  clean_exogenous_dataset_def clean_steps_def Let_def getitem_def iloc_from_def assign_def
  apply_to_def setitem_def DataFrame_empty_def reindex_def series_map_def series_eq_def isna_def
  encode_respondent_work_hours_def encode_gender_def encode_education_def
  encode_health_status_def encode_change_variables_def
  loc_fillna0_def check_bool_indexer_def loc_get_def fillna_def loc_set_def
  str_contains_int_def degree_patterns_def ci_match_def unicode_tolower_def ignorecase_fixes_def
  clean_risk_tolerance_def extract_number_def parse_income_range_def extract_midpoint_def
  py_str_def findall_digits_def search_digits_def is_digit_below_1632 is_digit_euro
  nat_of_digits_def decimal_value_ascii

lemma example_clean_run:
  "clean_exogenous_dataset example_num_str example_df example_original = Inr example_cleaned"
  by (simp add: cleaner_defs example_df_def example_original_def example_cleaned_def na_def
      example_num_str_def u_def float_of_digits_exact fl_round_numeral fl_round_half_numeral
      calculate_bmi_example)

lemma wf_example_df: "wf_frame example_df"
  by (simp add: wf_frame_def example_df_def na_def)

subsection \<open>Columns of the cleaned table\<close>

lemma series_map_nth:
  "i < length s \<Longrightarrow>
   series_map m s ! i =
     (case s ! i of Str k \<Rightarrow> (case map_of m k of Some r \<Rightarrow> r | None \<Rightarrow> Num NaN)
      | Num x \<Rightarrow> Num NaN)"
  by (simp add: series_map_def)

lemma length_series_map [simp]: "length (series_map m s) = length s"
  by (simp add: series_map_def)

lemma apply_to_eq_Inr: "apply_to f e = Inr s \<longleftrightarrow> (\<exists>r. e = Inr r \<and> s = f r)"
  by (auto simp add: apply_to_def and_then_eq_Inr)

text \<open>The columns of the cleaned table that the claims are about, for a table with rows.\<close>

lemma clean_gender_columns:
  assumes H: "clean_exogenous_dataset ns df orig = Inr out" and wf: "wf_frame df"
    and pos: "0 < index_len df"
  shows "\<exists>raw. getitem df ''Q256'' = Inr raw \<and> length raw = index_len df \<and>
           getitem out ''gender'' = Inr (encode_gender raw) \<and>
           getitem out ''gender_code'' =
             Inr (series_map [(u ''M'' @ [228] @ u ''nnlich'', Num (Fin 1)),
                              (u ''Weiblich'', Num (Fin 2)), (u ''Divers'', Num (Fin 3))] raw)"
proof -
  from clean_steps_run [OF H wf] obtain q1 rid where
    r: "run_steps (tl (clean_steps ns df q1))
          \<lparr>index_len = index_len df, columns = [(''ResponseId'', rid)]\<rparr> = Inr out"
    by blast
  let ?fs = "tl (clean_steps ns df q1)"
  let ?st = "\<lparr>index_len = index_len df, columns = [(''ResponseId'', rid)]\<rparr>"
  have len: "index_len ?st = index_len df" by simp
  have "\<exists>s. apply_to encode_gender (getitem df ''Q256'') = Inr s \<and> index_len out = index_len df \<and>
      map_of (columns out) ''gender'' = Some (reindex (index_len df) s)"
    by (rule assigned_column [OF r len pos, where k = 12])
      (simp_all add: clean_steps_def Let_def keeps_assign keeps_loc_fillna0 pos)
  then obtain raw where raw: "getitem df ''Q256'' = Inr raw"
    and g: "map_of (columns out) ''gender'' = Some (reindex (index_len df) (encode_gender raw))"
    by (auto simp add: apply_to_eq_Inr)
  have lr: "length raw = index_len df" using wf raw by (rule getitem_length)
  have "\<exists>s. apply_to (series_map [(u ''M'' @ [228] @ u ''nnlich'', Num (Fin 1)),
                              (u ''Weiblich'', Num (Fin 2)), (u ''Divers'', Num (Fin 3))])
            (getitem df ''Q256'') = Inr s \<and> index_len out = index_len df \<and>
      map_of (columns out) ''gender_code'' = Some (reindex (index_len df) s)"
    by (rule assigned_column [OF r len pos, where k = 13])
      (simp_all add: clean_steps_def Let_def keeps_assign keeps_loc_fillna0 pos)
  then have gc: "map_of (columns out) ''gender_code'' =
      Some (reindex (index_len df) (series_map [(u ''M'' @ [228] @ u ''nnlich'', Num (Fin 1)),
                              (u ''Weiblich'', Num (Fin 2)), (u ''Divers'', Num (Fin 3))] raw))"
    using raw by (auto simp add: apply_to_eq_Inr)
  show ?thesis
    using raw lr g gc by (simp add: getitem_def encode_gender_def)
qed

lemma clean_degree_column:
  assumes H: "clean_exogenous_dataset ns df orig = Inr out" and wf: "wf_frame df"
    and pos: "0 < index_len df"
  shows "\<exists>raw ind. getitem df ''Q191'' = Inr raw \<and> length raw = index_len df \<and>
           str_contains_int degree_patterns raw = Inr ind \<and>
           getitem out ''has_university_degree'' = Inr ind"
proof -
  from clean_steps_run [OF H wf] obtain q1 rid where
    r: "run_steps (tl (clean_steps ns df q1))
          \<lparr>index_len = index_len df, columns = [(''ResponseId'', rid)]\<rparr> = Inr out"
    by blast
  have len: "index_len \<lparr>index_len = index_len df, columns = [(''ResponseId'', rid)]\<rparr> = index_len df"
    by simp
  have "\<exists>s. and_then (getitem df ''Q191'') (str_contains_int degree_patterns) = Inr s \<and>
      index_len out = index_len df \<and>
      map_of (columns out) ''has_university_degree'' = Some (reindex (index_len df) s)"
    by (rule assigned_column [OF r len pos, where k = 18])
      (simp_all add: clean_steps_def Let_def keeps_assign keeps_loc_fillna0 pos)
  then obtain raw ind where raw: "getitem df ''Q191'' = Inr raw"
    and ind: "str_contains_int degree_patterns raw = Inr ind"
    and c: "map_of (columns out) ''has_university_degree'' = Some (reindex (index_len df) ind)"
    by (auto simp add: and_then_eq_Inr)
  have lr: "length raw = index_len df" using wf raw by (rule getitem_length)
  have "length ind = length raw" using ind by (auto simp add: str_contains_int_def split: if_splits)
  then show ?thesis using raw ind c lr by (simp add: getitem_def)
qed

lemma clean_bmi_column:
  assumes H: "clean_exogenous_dataset ns df orig = Inr out" and wf: "wf_frame df"
    and pos: "0 < index_len df"
  shows "\<exists>hs ws bs. getitem df ''Q82_1'' = Inr hs \<and> getitem df ''Q83_1'' = Inr ws \<and>
           length hs = index_len df \<and> length ws = index_len df \<and>
           calculate_bmi hs ws = Inr bs \<and> getitem out ''bmi'' = Inr bs"
proof -
  from clean_steps_run [OF H wf] obtain q1 rid where
    r: "run_steps (tl (clean_steps ns df q1))
          \<lparr>index_len = index_len df, columns = [(''ResponseId'', rid)]\<rparr> = Inr out"
    by blast
  have len: "index_len \<lparr>index_len = index_len df, columns = [(''ResponseId'', rid)]\<rparr> = index_len df"
    by simp
  have "\<exists>s. and_then (getitem df ''Q82_1'')
            (\<lambda>h. and_then (getitem df ''Q83_1'') (calculate_bmi h)) = Inr s \<and>
      index_len out = index_len df \<and>
      map_of (columns out) ''bmi'' = Some (reindex (index_len df) s)"
    by (rule assigned_column [OF r len pos, where k = 21])
      (simp_all add: clean_steps_def Let_def keeps_assign keeps_loc_fillna0 pos)
  then obtain hs ws bs where hs: "getitem df ''Q82_1'' = Inr hs"
    and ws: "getitem df ''Q83_1'' = Inr ws" and bs: "calculate_bmi hs ws = Inr bs"
    and c: "map_of (columns out) ''bmi'' = Some (reindex (index_len df) bs)"
    by (auto simp add: and_then_eq_Inr)
  have lh: "length hs = index_len df" using wf hs by (rule getitem_length)
  have lw: "length ws = index_len df" using wf ws by (rule getitem_length)
  have "length bs = index_len df"
    using calculate_bmi_nth [OF bs, of 0] lh lw pos by simp
  then show ?thesis using hs ws bs c lh lw by (simp add: getitem_def)
qed

lemma clean_count_column:
  assumes H: "clean_exogenous_dataset ns df orig = Inr out" and wf: "wf_frame df"
    and pos: "0 < index_len df"
    and f: "(c, code) \<in> set [(''num_children'', ''Q4_4''), (''num_partners'', ''Q4_2''),
                            (''num_parents'', ''Q4_3''), (''num_siblings'', ''Q4_5'')]"
  shows "\<exists>q1 raw. getitem (iloc_from 2 orig) ''Q1'' = Inr q1 \<and> index_len df \<le> length q1 \<and>
           getitem df code = Inr raw \<and> length raw = index_len df \<and>
           getitem out ''lives_with_others'' =
             Inr (take (index_len df)
                   (series_map [(u ''Ja'', Str (u ''Yes'')), (u ''Nein'', Str (u ''No''))] q1)) \<and>
           getitem out c =
             Inr (loc_set raw (fillna (Num (Fin 0))
                    (loc_get (take (index_len df) (series_eq q1 (Str (u ''Nein'')))) raw)))"
proof -
  from clean_steps_run [OF H wf] obtain q1 rid where
    q1: "getitem (iloc_from 2 orig) ''Q1'' = Inr q1"
    and r: "run_steps (tl (clean_steps ns df q1))
          \<lparr>index_len = index_len df, columns = [(''ResponseId'', rid)]\<rparr> = Inr out"
    by blast
  let ?n = "index_len df"
  let ?key = "series_eq q1 (Str (u ''Nein''))"
  have len: "index_len \<lparr>index_len = ?n, columns = [(''ResponseId'', rid)]\<rparr> = ?n"
    by simp
  have fill: "\<exists>s. getitem df code = Inr s \<and> ?n \<le> length ?key \<and> index_len out = ?n \<and>
      map_of (columns out) c =
        Some (loc_set (reindex ?n s) (fillna (Num (Fin 0)) (loc_get (take ?n ?key) (reindex ?n s))))"
  proof -
    from f consider
        "c = ''num_children''" "code = ''Q4_4''"
      | "c = ''num_partners''" "code = ''Q4_2''"
      | "c = ''num_parents''" "code = ''Q4_3''"
      | "c = ''num_siblings''" "code = ''Q4_5''"
      by auto
    then show ?thesis
    proof cases
      case 1
      show ?thesis unfolding 1
        by (rule filled_column [OF r len pos, where j = 3 and k = 7])
          (simp_all add: clean_steps_def Let_def keeps_assign keeps_loc_fillna0 pos)
    next
      case 2
      show ?thesis unfolding 2
        by (rule filled_column [OF r len pos, where j = 4 and k = 8])
          (simp_all add: clean_steps_def Let_def keeps_assign keeps_loc_fillna0 pos)
    next
      case 3
      show ?thesis unfolding 3
        by (rule filled_column [OF r len pos, where j = 5 and k = 9])
          (simp_all add: clean_steps_def Let_def keeps_assign keeps_loc_fillna0 pos)
    next
      case 4
      show ?thesis unfolding 4
        by (rule filled_column [OF r len pos, where j = 6 and k = 10])
          (simp_all add: clean_steps_def Let_def keeps_assign keeps_loc_fillna0 pos)
    qed
  qed
  then obtain raw where raw: "getitem df code = Inr raw" and kl: "?n \<le> length ?key"
    and col: "map_of (columns out) c =
        Some (loc_set (reindex ?n raw) (fillna (Num (Fin 0)) (loc_get (take ?n ?key) (reindex ?n raw))))"
    by blast
  have lr: "length raw = ?n" using wf raw by (rule getitem_length)
  have lq: "?n \<le> length q1" using kl by (simp add: series_eq_def)
  have "\<exists>s. (Inr (series_map [(u ''Ja'', Str (u ''Yes'')), (u ''Nein'', Str (u ''No''))] q1)
          :: error + series) = Inr s \<and>
      index_len out = ?n \<and>
      map_of (columns out) ''lives_with_others'' = Some (reindex ?n s)"
    by (rule assigned_column [OF r len pos, where k = 0])
      (simp_all add: clean_steps_def Let_def keeps_assign keeps_loc_fillna0 pos)
  then have ind: "map_of (columns out) ''lives_with_others'' =
      Some (take ?n (series_map [(u ''Ja'', Str (u ''Yes'')), (u ''Nein'', Str (u ''No''))] q1))"
    using lq by (auto simp add: reindex_def)
  show ?thesis using q1 lq raw lr ind col by (simp add: getitem_def)
qed

subsection \<open>Grouping and joining\<close>

lemma filter_eq_index:
  "filter (\<lambda>j'. j' = j) [0..<n] = (if j < n then [j] else [])"
  by (induction n) auto

lemma filter_key_absent:
  "k \<notin> set rk \<Longrightarrow> filter (\<lambda>j. rk ! j = k) [0..<length rk] = []"
  by (auto simp add: filter_empty_conv)

lemma filter_key_present:
  assumes "distinct rk" and "j < length rk"
  shows "filter (\<lambda>j'. rk ! j' = rk ! j) [0..<length rk] = [j]"
proof -
  have "filter (\<lambda>j'. rk ! j' = rk ! j) [0..<length rk] = filter (\<lambda>j'. j' = j) [0..<length rk]"
    using assms by (intro filter_cong) (auto simp add: nth_eq_iff_index_eq)
  then show ?thesis using assms(2) by (simp add: filter_eq_index)
qed

lemma map_concat_singletons:
  "(\<And>i. i \<in> set xs \<Longrightarrow> map f (F i) = [h i]) \<Longrightarrow> map f (concat (map F xs)) = map h xs"
  by (induction xs) (simp_all add: map_concat)

lemma join_pairs_right:
  assumes d: "distinct rk"
  shows "map (\<lambda>p. case snd p of None \<Rightarrow> Num NaN | Some j \<Rightarrow> map g rk ! j) (join_pairs lk rk) =
         map (\<lambda>k. if k \<in> set rk then g k else Num NaN) lk"
proof -
  let ?F = "\<lambda>i. case filter (\<lambda>j. rk ! j = lk ! i) [0..<length rk] of
                  [] \<Rightarrow> [(i, None)]
                | j # js \<Rightarrow> map (\<lambda>j'. (i, Some j')) (j # js)"
  let ?f = "\<lambda>p. case snd p of None \<Rightarrow> Num NaN | Some j \<Rightarrow> map g rk ! j"
  have row: "map ?f (?F i) = [if lk ! i \<in> set rk then g (lk ! i) else Num NaN]" for i
  proof (cases "lk ! i \<in> set rk")
    case False
    then show ?thesis by (simp add: filter_key_absent)
  next
    case True
    then obtain j where j: "j < length rk" "rk ! j = lk ! i" by (auto simp add: in_set_conv_nth)
    from filter_key_present [OF d j(1)] j True show ?thesis by simp
  qed
  have "map ?f (join_pairs lk rk) =
      map (\<lambda>i. if lk ! i \<in> set rk then g (lk ! i) else Num NaN) [0..<length lk]"
    unfolding join_pairs_def by (rule map_concat_singletons) (rule row)
  also have "\<dots> = map (\<lambda>k. if k \<in> set rk then g k else Num NaN) (map (\<lambda>i. lk ! i) [0..<length lk])"
    by (simp add: comp_def)
  also have "map (\<lambda>i. lk ! i) [0..<length lk] = lk" by (rule map_nth)
  finally show ?thesis .
qed

lemma join_pairs_left:
  assumes d: "distinct rk" and l: "length s = length lk"
  shows "map (\<lambda>p. s ! fst p) (join_pairs lk rk) = s"
proof -
  let ?F = "\<lambda>i. case filter (\<lambda>j. rk ! j = lk ! i) [0..<length rk] of
                  [] \<Rightarrow> [(i, None)]
                | j # js \<Rightarrow> map (\<lambda>j'. (i, Some j')) (j # js)"
  have row: "map (\<lambda>p. s ! fst p) (?F i) = [s ! i]" for i
  proof (cases "lk ! i \<in> set rk")
    case False
    then show ?thesis by (simp add: filter_key_absent)
  next
    case True
    then obtain j where j: "j < length rk" "rk ! j = lk ! i" by (auto simp add: in_set_conv_nth)
    from filter_key_present [OF d j(1)] j show ?thesis by simp
  qed
  have "map (\<lambda>p. s ! fst p) (join_pairs lk rk) = map (\<lambda>i. s ! i) [0..<length lk]"
    unfolding join_pairs_def by (rule map_concat_singletons) (rule row)
  also have "\<dots> = s" using l map_nth [of s] by simp
  finally show ?thesis .
qed

lemma join_pairs_length:
  assumes d: "distinct rk"
  shows "length (join_pairs lk rk) = length lk"
  using join_pairs_left [OF d, of lk lk] by (metis length_map)

lemma insort_cell_set [simp]: "set (insort_cell k xs) = insert k (set xs)"
  by (induction xs) auto

lemma insort_cell_distinct: "k \<notin> set xs \<Longrightarrow> distinct xs \<Longrightarrow> distinct (insort_cell k xs)"
  by (induction xs) auto

lemma sort_cells_set [simp]: "set (sort_cells xs) = set xs"
  unfolding sort_cells_def by (induction xs) simp_all

lemma sort_cells_distinct: "distinct xs \<Longrightarrow> distinct (sort_cells xs)"
  unfolding sort_cells_def
proof (induction xs)
  case Nil
  then show ?case by simp
next
  case (Cons x xs)
  then have "x \<notin> set (foldr insort_cell xs [])" "distinct (foldr insort_cell xs [])"
    using sort_cells_set [of xs, unfolded sort_cells_def] by simp_all
  then show ?case by (simp add: insort_cell_distinct)
qed

lemma group_keys_distinct: "distinct (group_keys ks)"
  by (simp add: group_keys_def sort_cells_distinct)

lemma group_keys_set: "set (group_keys ks) = {k \<in> set ks. \<not> isna k}"
  by (auto simp add: group_keys_def)

lemma map_of_group_columns:
  "c \<noteq> key \<Longrightarrow>
   map_of (map (\<lambda>cs. (fst cs, f (snd cs))) (filter (\<lambda>cs. fst cs \<noteq> key) xs)) c =
   map_option f (map_of xs c)"
  by (induction xs) auto

lemma groupby_first_columns:
  assumes "groupby_first key df = Inr agg"
  shows "\<exists>ks. getitem df key = Inr ks \<and> getitem agg key = Inr (group_keys ks) \<and>
           (\<forall>c s. c \<noteq> key \<longrightarrow> getitem agg c = Inr s \<longrightarrow>
              (\<exists>r. getitem df c = Inr r \<and>
                   s = map (\<lambda>k. first_valid (group_cells ks r k)) (group_keys ks)))"
proof -
  from assms obtain ks where ks: "getitem df key = Inr ks"
    and agg: "agg = \<lparr>index_len = length (group_keys ks),
             columns = (key, group_keys ks) #
               map (\<lambda>cs. (fst cs, map (\<lambda>k. first_valid (group_cells ks (snd cs) k)) (group_keys ks)))
                 (filter (\<lambda>cs. fst cs \<noteq> key) (columns df))\<rparr>"
    by (auto simp add: groupby_first_def and_then_eq_Inr Let_def)
  have k: "getitem agg key = Inr (group_keys ks)" by (simp add: agg getitem_def)
  have "\<exists>r. getitem df c = Inr r \<and> s = map (\<lambda>k. first_valid (group_cells ks r k)) (group_keys ks)"
    if "c \<noteq> key" and "getitem agg c = Inr s" for c s
  proof -
    let ?f = "\<lambda>r. map (\<lambda>k. first_valid (group_cells ks r k)) (group_keys ks)"
    from that have "map_of (map (\<lambda>cs. (fst cs, ?f (snd cs)))
        (filter (\<lambda>cs. fst cs \<noteq> key) (columns df))) c = Some s"
      by (simp add: agg getitem_def split: option.splits)
    with map_of_group_columns [OF that(1), of ?f "columns df"]
    have "map_option ?f (map_of (columns df) c) = Some s" by simp
    then show ?thesis by (auto simp add: getitem_def split: option.splits)
  qed
  with ks k show ?thesis by blast
qed

lemma suffix_not_regional:
  "a \<in> set (''region_plz'' # new_vars) \<Longrightarrow> a @ ''_x'' \<notin> set (''region_plz'' # new_vars)"
  "a \<in> set (''region_plz'' # new_vars) \<Longrightarrow> a @ ''_y'' \<notin> set (''region_plz'' # new_vars)"
  by (auto simp add: new_vars_def)


lemma merge_left_unique_keys:
  assumes m: "merge_left left right lo ro = Inr merged"
    and wf: "wf_frame left"
    and lk: "getitem left lo = Inr lk"
    and rk: "getitem right ro = Inr rk"
    and d: "distinct rk"
    and cols: "columns right = map (\<lambda>vg. (fst vg, map (snd vg) rk)) vgs"
  shows "index_len merged = index_len left \<and>
         columns merged =
           map (\<lambda>cs. (suffixed (map fst vgs) ''_x'' (fst cs), snd cs)) (columns left) @
           map (\<lambda>vg. (suffixed (map fst (columns left)) ''_y'' (fst vg),
                      map (\<lambda>k. if k \<in> set rk then snd vg k else Num NaN) lk)) vgs \<and>
         distinct (map fst (columns merged))"
proof -
  let ?pairs = "join_pairs lk rk"
  let ?rn = "map fst (columns right)"
  let ?ln = "map fst (columns left)"
  define lcols where "lcols =
    map (\<lambda>cs. (suffixed ?rn ''_x'' (fst cs), map (\<lambda>p. snd cs ! fst p) ?pairs)) (columns left)"
  define rcols where "rcols =
    map (\<lambda>cs. (suffixed ?ln ''_y'' (fst cs),
                map (\<lambda>p. case snd p of None \<Rightarrow> Num NaN | Some j \<Rightarrow> snd cs ! j) ?pairs))
      (columns right)"
  have "merge_left left right lo ro =
      (if lk \<noteq> [] \<and> rk \<noteq> [] \<and> has_text lk \<noteq> has_text rk then Inl ValueError
       else if distinct (map fst (lcols @ rcols))
            then Inr \<lparr>index_len = length ?pairs, columns = lcols @ rcols\<rparr>
            else Inl MergeError)"
    by (simp only: merge_left_def lk rk and_then_Inr Let_def lcols_def rcols_def)
  with m have merged: "merged = \<lparr>index_len = length ?pairs, columns = lcols @ rcols\<rparr>"
    and dist: "distinct (map fst (lcols @ rcols))"
    by (simp_all split: if_splits)
  have ll: "length lk = index_len left" using wf lk by (rule getitem_length)
  have rn: "?rn = map fst vgs" by (simp add: cols comp_def)
  have l: "lcols = map (\<lambda>cs. (suffixed (map fst vgs) ''_x'' (fst cs), snd cs)) (columns left)"
    unfolding lcols_def
  proof (rule map_cong [OF refl])
    fix cs assume "cs \<in> set (columns left)"
    with wf have "length (snd cs) = length lk" by (simp add: wf_frame_def list_all_iff ll)
    from join_pairs_left [OF d this] rn
    show "(suffixed ?rn ''_x'' (fst cs), map (\<lambda>p. snd cs ! fst p) ?pairs) =
          (suffixed (map fst vgs) ''_x'' (fst cs), snd cs)" by simp
  qed
  have r: "rcols = map (\<lambda>vg. (suffixed ?ln ''_y'' (fst vg),
                      map (\<lambda>k. if k \<in> set rk then snd vg k else Num NaN) lk)) vgs"
  proof -
    have "rcols = map (\<lambda>vg. (suffixed ?ln ''_y'' (fst vg),
            map (\<lambda>p. case snd p of None \<Rightarrow> Num NaN | Some j \<Rightarrow> map (snd vg) rk ! j) ?pairs)) vgs"
      unfolding rcols_def cols map_map comp_def fst_conv snd_conv ..
    then show ?thesis by (simp only: join_pairs_right [OF d])
  qed
  have "index_len merged = index_len left"
    by (simp add: merged join_pairs_length [OF d] ll)
  moreover have "columns merged =
           map (\<lambda>cs. (suffixed (map fst vgs) ''_x'' (fst cs), snd cs)) (columns left) @
           map (\<lambda>vg. (suffixed ?ln ''_y'' (fst vg),
                      map (\<lambda>k. if k \<in> set rk then snd vg k else Num NaN) lk)) vgs"
    using l r by (simp add: merged)
  moreover have "distinct (map fst (columns merged))" using dist by (simp add: merged)
  ultimately show ?thesis by blast
qed

text \<open>
  A merge that leaves all the regional names readable had no name on both sides: such a
  name would have got its suffixes.
\<close>

lemma no_shared_names:
  assumes names: "set (''region_plz'' # new_vars) \<subseteq>
      set (map (suffixed (''region_plz'' # new_vars) ''_x'') lnames @
           map (suffixed lnames ''_y'') (''region_plz'' # new_vars))"
  shows "set lnames \<inter> set (''region_plz'' # new_vars) = {}"
proof (rule ccontr)
  let ?R = "''region_plz'' # new_vars"
  assume "set lnames \<inter> set ?R \<noteq> {}"
  then obtain c where cl: "c \<in> set lnames" and cr: "c \<in> set ?R" by blast
  from names cr have "c \<in> suffixed ?R ''_x'' ` set lnames \<or> c \<in> suffixed lnames ''_y'' ` set ?R"
    by auto
  then show False
  proof
    assume "c \<in> suffixed ?R ''_x'' ` set lnames"
    then obtain a where a: "a \<in> set lnames" "c = suffixed ?R ''_x'' a" by blast
    show False
    proof (cases "a \<in> set ?R")
      case True
      then have "c = a @ ''_x''" using a(2) by (simp add: suffixed_def)
      with suffix_not_regional(1) [OF True] cr show False by simp
    next
      case False
      then have "c = a" using a(2) by (simp add: suffixed_def)
      with False cr show False by simp
    qed
  next
    assume "c \<in> suffixed lnames ''_y'' ` set ?R"
    then obtain a where a: "a \<in> set ?R" "c = suffixed lnames ''_y'' a" by blast
    show False
    proof (cases "a \<in> set lnames")
      case True
      then have "c = a @ ''_y''" using a(2) by (simp add: suffixed_def)
      with suffix_not_regional(2) [OF a(1)] cr show False by simp
    next
      case False
      then have "c = a" using a(2) by (simp add: suffixed_def)
      with False cl show False by simp
    qed
  qed
qed

lemma getitem_in_names: "getitem df c = Inr s \<Longrightarrow> c \<in> set (map fst (columns df))"
proof -
  assume "getitem df c = Inr s"
  then have "map_of (columns df) c = Some s" by (simp add: getitem_map_of)
  then have "(c, s) \<in> set (columns df)" by (rule map_of_SomeD)
  then show ?thesis by force
qed

lemma joined_column_group_keys:
  "map (\<lambda>k. if k \<in> set (group_keys plz) then first_valid (group_cells plz s k) else Num NaN) zips =
   joined_column zips plz s"
  by (simp add: joined_column_def group_keys_set)

lemma merge_regional_data_result:
  assumes run: "merge_regional_data df_clean read_csv = Inr df_merged"
    and wf: "wf_frame df_clean"
  shows "\<exists>zips loaded plz s1 s2 s3 s4 s5 s6 s7.
     getitem df_clean ''zip_code'' = Inr zips \<and>
     snd (load_regions read_csv) = Inr loaded \<and>
     getitem (dropna_columns_all (drop_unnamed loaded)) ''PLZ'' = Inr plz \<and>
     getitem (dropna_columns_all (drop_unnamed loaded)) ''Bundesland'' = Inr s1 \<and>
     getitem (dropna_columns_all (drop_unnamed loaded)) ''Kreis'' = Inr s2 \<and>
     getitem (dropna_columns_all (drop_unnamed loaded)) ''Stadt.Dummy'' = Inr s3 \<and>
     getitem (dropna_columns_all (drop_unnamed loaded)) ''EW.km2'' = Inr s4 \<and>
     getitem (dropna_columns_all (drop_unnamed loaded)) ''Rural.Dummy'' = Inr s5 \<and>
     getitem (dropna_columns_all (drop_unnamed loaded)) ''EW'' = Inr s6 \<and>
     getitem (dropna_columns_all (drop_unnamed loaded)) ''Metropol.Dummy'' = Inr s7 \<and>
     set (map fst (columns df_clean)) \<inter> set (''region_plz'' # new_vars) = {} \<and>
     df_merged = \<lparr>index_len = index_len df_clean,
                  columns = columns df_clean @
                    [(''federal_state'', joined_column zips plz s1),
                     (''district'', joined_column zips plz s2),
                     (''is_city'', joined_column zips plz s3),
                     (''population_density'', joined_column zips plz s4),
                     (''is_rural'', joined_column zips plz s5),
                     (''population'', joined_column zips plz s6),
                     (''is_metropolitan'', joined_column zips plz s7)]\<rparr>"
proof -
  from run obtain zips loaded plz agg sel merged report where
    zips: "getitem df_clean ''zip_code'' = Inr zips"
    and loaded: "snd (load_regions read_csv) = Inr loaded"
    and plz: "getitem (dropna_columns_all (drop_unnamed loaded)) ''PLZ'' = Inr plz"
    and agg: "groupby_first ''PLZ'' (dropna_columns_all (drop_unnamed loaded)) = Inr agg"
    and sel: "select_columns regional_cols agg = Inr sel"
    and merged: "merge_left df_clean (rename_columns region_renames sel) ''zip_code'' ''region_plz''
                 = Inr merged"
    and dropped: "drop_column ''region_plz'' merged = Inr df_merged"
    and report: "traverse (getitem df_merged) new_vars = Inr report"
    unfolding merge_regional_data_def merged_output_def Let_def and_then_eq_Inr by blast
  let ?R = "dropna_columns_all (drop_unnamed loaded)"
  let ?gk = "group_keys plz"
  let ?g = "\<lambda>s k. first_valid (group_cells plz s k)"
  from groupby_first_columns [OF agg] plz have
    key: "getitem agg ''PLZ'' = Inr ?gk"
    and other: "\<And>c s. c \<noteq> ''PLZ'' \<Longrightarrow> getitem agg c = Inr s \<Longrightarrow>
                  \<exists>r. getitem ?R c = Inr r \<and> s = map (?g r) ?gk"
    by auto
  from sel obtain t0 t1 t2 t3 t4 t5 t6 t7 where
    t: "getitem agg ''PLZ'' = Inr t0" "getitem agg ''Bundesland'' = Inr t1"
       "getitem agg ''Kreis'' = Inr t2" "getitem agg ''Stadt.Dummy'' = Inr t3"
       "getitem agg ''EW.km2'' = Inr t4" "getitem agg ''Rural.Dummy'' = Inr t5"
       "getitem agg ''EW'' = Inr t6" "getitem agg ''Metropol.Dummy'' = Inr t7"
    and selc: "columns sel = [(''PLZ'', t0), (''Bundesland'', t1), (''Kreis'', t2),
        (''Stadt.Dummy'', t3), (''EW.km2'', t4), (''Rural.Dummy'', t5), (''EW'', t6),
        (''Metropol.Dummy'', t7)]"
    by (auto simp add: select_columns_def regional_cols_def and_then_eq_Inr)
  have t0: "t0 = ?gk" using key t(1) by simp
  from other [OF _ t(2)] obtain s1 where s1: "getitem ?R ''Bundesland'' = Inr s1" "t1 = map (?g s1) ?gk" by auto
  from other [OF _ t(3)] obtain s2 where s2: "getitem ?R ''Kreis'' = Inr s2" "t2 = map (?g s2) ?gk" by auto
  from other [OF _ t(4)] obtain s3 where s3: "getitem ?R ''Stadt.Dummy'' = Inr s3" "t3 = map (?g s3) ?gk" by auto
  from other [OF _ t(5)] obtain s4 where s4: "getitem ?R ''EW.km2'' = Inr s4" "t4 = map (?g s4) ?gk" by auto
  from other [OF _ t(6)] obtain s5 where s5: "getitem ?R ''Rural.Dummy'' = Inr s5" "t5 = map (?g s5) ?gk" by auto
  from other [OF _ t(7)] obtain s6 where s6: "getitem ?R ''EW'' = Inr s6" "t6 = map (?g s6) ?gk" by auto
  from other [OF _ t(8)] obtain s7 where s7: "getitem ?R ''Metropol.Dummy'' = Inr s7" "t7 = map (?g s7) ?gk" by auto
  define vgs where "vgs = [(''region_plz'', \<lambda>k. k), (''federal_state'', ?g s1),
     (''district'', ?g s2), (''is_city'', ?g s3), (''population_density'', ?g s4),
     (''is_rural'', ?g s5), (''population'', ?g s6), (''is_metropolitan'', ?g s7)]"
  let ?right = "rename_columns region_renames sel"
  have cols: "columns ?right = map (\<lambda>vg. (fst vg, map (snd vg) ?gk)) vgs"
    by (simp add: rename_columns_def region_renames_def selc vgs_def t0 s1 s2 s3 s4 s5 s6 s7)
  have rk: "getitem ?right ''region_plz'' = Inr ?gk"
    by (simp add: getitem_def cols vgs_def)
  have names: "map fst vgs = ''region_plz'' # new_vars"
    by (simp add: vgs_def new_vars_def)
  let ?ln = "map fst (columns df_clean)"
  from merge_left_unique_keys [OF merged wf zips rk group_keys_distinct cols]
  have il: "index_len merged = index_len df_clean"
    and mc: "columns merged =
           map (\<lambda>cs. (suffixed (''region_plz'' # new_vars) ''_x'' (fst cs), snd cs)) (columns df_clean) @
           map (\<lambda>vg. (suffixed ?ln ''_y'' (fst vg),
                      map (\<lambda>k. if k \<in> set ?gk then snd vg k else Num NaN) zips)) vgs"
    unfolding names by simp_all
  have mn: "map fst (columns merged) =
      map (suffixed (''region_plz'' # new_vars) ''_x'') ?ln @
      map (suffixed ?ln ''_y'') (''region_plz'' # new_vars)"
    unfolding mc names [symmetric] by (simp add: comp_def)
  from dropped have in_m: "''region_plz'' \<in> set (map fst (columns merged))"
    and out: "df_merged = merged\<lparr>columns := filter (\<lambda>cs. fst cs \<noteq> ''region_plz'') (columns merged)\<rparr>"
    by (simp_all add: drop_column_def split: if_splits)
  have "v \<in> set (map fst (columns merged))" if "v \<in> set new_vars" for v
  proof -
    from that obtain i where i: "i < length new_vars" "new_vars ! i = v"
      by (auto simp add: in_set_conv_nth)
    from traverse_eq_Inr [OF report] i have "getitem df_merged v = Inr (report ! i)" by auto
    from getitem_in_names [OF this] show ?thesis by (auto simp add: out)
  qed
  with in_m have "set (''region_plz'' # new_vars) \<subseteq> set (map fst (columns merged))" by auto
  then have disj: "set ?ln \<inter> set (''region_plz'' # new_vars) = {}"
    unfolding mn by (rule no_shared_names)
  have left_same: "map (\<lambda>cs. (suffixed (''region_plz'' # new_vars) ''_x'' (fst cs), snd cs))
      (columns df_clean) = columns df_clean"
  proof (rule map_idI)
    fix cs assume "cs \<in> set (columns df_clean)"
    then have "fst cs \<in> set ?ln" by simp
    with disj have "fst cs \<notin> set (''region_plz'' # new_vars)" by blast
    then show "(suffixed (''region_plz'' # new_vars) ''_x'' (fst cs), snd cs) = cs"
      unfolding suffixed_def by (cases cs) simp
  qed
  have right_same: "suffixed ?ln ''_y'' v = v" if "v \<in> set (''region_plz'' # new_vars)" for v
  proof -
    from that disj have "v \<notin> set ?ln" by blast
    then show ?thesis unfolding suffixed_def by simp
  qed
  have right_cols: "map (\<lambda>vg. (suffixed ?ln ''_y'' (fst vg),
                      map (\<lambda>k. if k \<in> set ?gk then snd vg k else Num NaN) zips)) vgs =
      map (\<lambda>vg. (fst vg, map (\<lambda>k. if k \<in> set ?gk then snd vg k else Num NaN) zips)) vgs"
  proof (rule map_cong [OF refl])
    fix vg assume "vg \<in> set vgs"
    then have "fst vg \<in> set (map fst vgs)" by simp
    then have "suffixed ?ln ''_y'' (fst vg) = fst vg" unfolding names by (rule right_same)
    then show "(suffixed ?ln ''_y'' (fst vg), map (\<lambda>k. if k \<in> set ?gk then snd vg k else Num NaN) zips) =
        (fst vg, map (\<lambda>k. if k \<in> set ?gk then snd vg k else Num NaN) zips)" by simp
  qed
  have no_key: "filter (\<lambda>cs. fst cs \<noteq> ''region_plz'') (columns df_clean) = columns df_clean"
  proof (intro filter_True ballI)
    fix cs assume "cs \<in> set (columns df_clean)"
    then have "fst cs \<in> set ?ln" by simp
    with disj have "fst cs \<notin> set (''region_plz'' # new_vars)" by blast
    then show "fst cs \<noteq> ''region_plz''" by simp
  qed
  have "df_merged = \<lparr>index_len = index_len df_clean,
                  columns = columns df_clean @
                    [(''federal_state'', joined_column zips plz s1),
                     (''district'', joined_column zips plz s2),
                     (''is_city'', joined_column zips plz s3),
                     (''population_density'', joined_column zips plz s4),
                     (''is_rural'', joined_column zips plz s5),
                     (''population'', joined_column zips plz s6),
                     (''is_metropolitan'', joined_column zips plz s7)]\<rparr>"
    unfolding out mc left_same right_cols
    by (simp add: no_key il vgs_def joined_column_group_keys cong del: if_weak_cong)
  with zips loaded plz s1(1) s2(1) s3(1) s4(1) s5(1) s6(1) s7(1) disj show ?thesis by blast
qed

lemma getitem_append_left:
  "c \<notin> set (map fst ys) \<Longrightarrow>
   getitem \<lparr>index_len = n, columns = xs @ ys\<rparr> c = getitem \<lparr>index_len = m, columns = xs\<rparr> c"
  by (auto simp add: getitem_def map_add_def map_of_eq_None_iff [THEN iffD2] split: option.splits)

text \<open>When the merge returns.\<close>

lemma traverse_total:
  "(\<And>x. x \<in> set xs \<Longrightarrow> \<exists>y. f x = Inr y) \<Longrightarrow> \<exists>ys. traverse f xs = Inr ys"
proof (induction xs)
  case Nil
  then show ?case by simp
next
  case (Cons x xs)
  from Cons.prems obtain y where y: "f x = Inr y" by auto
  from Cons obtain ys where "traverse f xs = Inr ys" by auto
  with y show ?case by simp
qed

lemma getitem_of_name: "c \<in> set (map fst (columns df)) \<Longrightarrow> \<exists>s. getitem df c = Inr s"
proof -
  assume "c \<in> set (map fst (columns df))"
  then have "map_of (columns df) c \<noteq> None" by (simp add: map_of_eq_None_iff)
  then show ?thesis by (auto simp add: getitem_def)
qed

lemma merge_left_runs:
  assumes lk: "getitem left lo = Inr lk" and rk: "getitem right ro = Inr rk"
    and types: "lk = [] \<or> rk = [] \<or> has_text lk = has_text rk"
    and dl: "distinct (map fst (columns left))" and dr: "distinct (map fst (columns right))"
    and disj: "set (map fst (columns left)) \<inter> set (map fst (columns right)) = {}"
  shows "\<exists>merged. merge_left left right lo ro = Inr merged \<and>
           map fst (columns merged) = map fst (columns left) @ map fst (columns right)"
proof -
  let ?pairs = "join_pairs lk rk"
  let ?rn = "map fst (columns right)"
  let ?ln = "map fst (columns left)"
  define lcols where "lcols =
    map (\<lambda>cs. (suffixed ?rn ''_x'' (fst cs), map (\<lambda>p. snd cs ! fst p) ?pairs)) (columns left)"
  define rcols where "rcols =
    map (\<lambda>cs. (suffixed ?ln ''_y'' (fst cs),
                map (\<lambda>p. case snd p of None \<Rightarrow> Num NaN | Some j \<Rightarrow> snd cs ! j) ?pairs))
      (columns right)"
  have run: "merge_left left right lo ro =
      (if lk \<noteq> [] \<and> rk \<noteq> [] \<and> has_text lk \<noteq> has_text rk then Inl ValueError
       else if distinct (map fst (lcols @ rcols))
            then Inr \<lparr>index_len = length ?pairs, columns = lcols @ rcols\<rparr>
            else Inl MergeError)"
    by (simp only: merge_left_def lk rk and_then_Inr Let_def lcols_def rcols_def)
  have "map fst lcols = map (suffixed ?rn ''_x'') ?ln" by (simp add: lcols_def comp_def)
  also have "\<dots> = ?ln"
  proof (rule map_idI)
    fix c assume "c \<in> set ?ln"
    with disj have "c \<notin> set ?rn" by blast
    then show "suffixed ?rn ''_x'' c = c" unfolding suffixed_def by simp
  qed
  finally have l: "map fst lcols = ?ln" .
  have "map fst rcols = map (suffixed ?ln ''_y'') ?rn" by (simp add: rcols_def comp_def)
  also have "\<dots> = ?rn"
  proof (rule map_idI)
    fix c assume "c \<in> set ?rn"
    with disj have "c \<notin> set ?ln" by blast
    then show "suffixed ?ln ''_y'' c = c" unfolding suffixed_def by simp
  qed
  finally have r: "map fst rcols = ?rn" .
  have names: "map fst (lcols @ rcols) = ?ln @ ?rn" using l r by simp
  have "distinct (map fst (lcols @ rcols))" unfolding names using dl dr disj by simp
  with types have "merge_left left right lo ro =
      Inr \<lparr>index_len = length ?pairs, columns = lcols @ rcols\<rparr>"
    unfolding run by auto
  with names show ?thesis by simp
qed

lemma map_fst_filter_names:
  "map fst (filter (\<lambda>cs. fst cs \<noteq> c) cols) = filter (\<lambda>n. n \<noteq> c) (map fst cols)"
  by (induction cols) auto

lemma merge_regional_data_runs:
  assumes wf: "wf_frame df_clean"
    and zips: "getitem df_clean ''zip_code'' = Inr zips"
    and loaded: "snd (load_regions read_csv) = Inr loaded"
    and plz: "getitem (dropna_columns_all (drop_unnamed loaded)) ''PLZ'' = Inr plz"
    and s1: "getitem (dropna_columns_all (drop_unnamed loaded)) ''Bundesland'' = Inr s1"
    and s2: "getitem (dropna_columns_all (drop_unnamed loaded)) ''Kreis'' = Inr s2"
    and s3: "getitem (dropna_columns_all (drop_unnamed loaded)) ''Stadt.Dummy'' = Inr s3"
    and s4: "getitem (dropna_columns_all (drop_unnamed loaded)) ''EW.km2'' = Inr s4"
    and s5: "getitem (dropna_columns_all (drop_unnamed loaded)) ''Rural.Dummy'' = Inr s5"
    and s6: "getitem (dropna_columns_all (drop_unnamed loaded)) ''EW'' = Inr s6"
    and s7: "getitem (dropna_columns_all (drop_unnamed loaded)) ''Metropol.Dummy'' = Inr s7"
    and types: "zips = [] \<or> group_keys plz = [] \<or> has_text zips = has_text (group_keys plz)"
    and disj: "set (map fst (columns df_clean)) \<inter> set (''region_plz'' # new_vars) = {}"
  shows "merge_regional_data df_clean read_csv =
     Inr \<lparr>index_len = index_len df_clean,
          columns = columns df_clean @
            [(''federal_state'', joined_column zips plz s1),
             (''district'', joined_column zips plz s2),
             (''is_city'', joined_column zips plz s3),
             (''population_density'', joined_column zips plz s4),
             (''is_rural'', joined_column zips plz s5),
             (''population'', joined_column zips plz s6),
             (''is_metropolitan'', joined_column zips plz s7)]\<rparr>"
proof -
  let ?R = "dropna_columns_all (drop_unnamed loaded)"
  let ?gk = "group_keys plz"
  let ?g = "\<lambda>r. map (\<lambda>k. first_valid (group_cells plz r k)) ?gk"
  define agg where "agg = \<lparr>index_len = length ?gk,
     columns = (''PLZ'', ?gk) #
       map (\<lambda>cs. (fst cs, ?g (snd cs))) (filter (\<lambda>cs. fst cs \<noteq> ''PLZ'') (columns ?R))\<rparr>"
  have gb: "groupby_first ''PLZ'' ?R = Inr agg"
    by (simp add: groupby_first_def plz Let_def agg_def)
  have key: "getitem agg ''PLZ'' = Inr ?gk" by (simp add: agg_def getitem_def)
  have other: "getitem agg c = Inr (?g r)" if "c \<noteq> ''PLZ''" and "getitem ?R c = Inr r" for c r
  proof -
    from that(2) have "map_of (columns ?R) c = Some r" by (simp add: getitem_map_of)
    with map_of_group_columns [OF that(1), of ?g "columns ?R"] that(1)
    show ?thesis by (simp add: agg_def getitem_def)
  qed
  define sel where "sel = agg\<lparr>columns := [(''PLZ'', ?gk), (''Bundesland'', ?g s1),
     (''Kreis'', ?g s2), (''Stadt.Dummy'', ?g s3), (''EW.km2'', ?g s4),
     (''Rural.Dummy'', ?g s5), (''EW'', ?g s6), (''Metropol.Dummy'', ?g s7)]\<rparr>"
  have sl: "select_columns regional_cols agg = Inr sel"
    by (simp add: select_columns_def regional_cols_def sel_def key other [OF _ s1]
        other [OF _ s2] other [OF _ s3] other [OF _ s4] other [OF _ s5] other [OF _ s6]
        other [OF _ s7])
  let ?right = "rename_columns region_renames sel"
  have rn: "map fst (columns ?right) = ''region_plz'' # new_vars"
    by (simp add: rename_columns_def region_renames_def sel_def new_vars_def)
  have rk: "getitem ?right ''region_plz'' = Inr ?gk"
    by (simp add: getitem_def rename_columns_def region_renames_def sel_def)
  have dl: "distinct (map fst (columns df_clean))" using wf by (simp add: wf_frame_def)
  have dr: "distinct (map fst (columns ?right))" unfolding rn by (simp add: new_vars_def)
  from merge_left_runs [OF zips rk types dl dr disj [folded rn]] obtain merged where
    m: "merge_left df_clean ?right ''zip_code'' ''region_plz'' = Inr merged"
    and mn: "map fst (columns merged) = map fst (columns df_clean) @ ''region_plz'' # new_vars"
    unfolding rn by blast
  define out where
    "out = merged\<lparr>columns := filter (\<lambda>cs. fst cs \<noteq> ''region_plz'') (columns merged)\<rparr>"
  have dc: "drop_column ''region_plz'' merged = Inr out"
    by (simp add: drop_column_def mn out_def)
  have fs: "\<exists>s. getitem out v = Inr s" if "v \<in> set new_vars" for v
  proof (rule getitem_of_name)
    from that have "v \<noteq> ''region_plz''" by (auto simp add: new_vars_def)
    with that show "v \<in> set (map fst (columns out))"
      by (simp add: out_def map_fst_filter_names mn)
  qed
  from fs obtain report where rp: "traverse (getitem out) new_vars = Inr report"
    using traverse_total [of new_vars "getitem out"] by blast
  from fs obtain matched where fs': "getitem out ''federal_state'' = Inr matched"
    by (auto simp add: new_vars_def)
  have written: "merged_output df_clean read_csv = Inr out"
    by (simp add: merged_output_def zips loaded plz gb sl m dc fs' Let_def)
  have run: "merge_regional_data df_clean read_csv = Inr out"
    by (simp add: merge_regional_data_def written rp)
  from merge_regional_data_result [OF run wf] zips loaded plz s1 s2 s3 s4 s5 s6 s7
  have "out = \<lparr>index_len = index_len df_clean,
          columns = columns df_clean @
            [(''federal_state'', joined_column zips plz s1),
             (''district'', joined_column zips plz s2),
             (''is_city'', joined_column zips plz s3),
             (''population_density'', joined_column zips plz s4),
             (''is_rural'', joined_column zips plz s5),
             (''population'', joined_column zips plz s6),
             (''is_metropolitan'', joined_column zips plz s7)]\<rparr>"
    by auto
  with run show ?thesis by simp
qed

lemma merge_keeps_column:
  assumes run: "merge_regional_data df_clean read_csv = Inr df_merged"
    and wf: "wf_frame df_clean"
    and c: "getitem df_clean c = Inr s"
  shows "getitem df_merged c = Inr s \<and> index_len df_merged = index_len df_clean"
proof -
  from merge_regional_data_result [OF run wf] obtain new where
    out: "df_merged = \<lparr>index_len = index_len df_clean, columns = columns df_clean @ new\<rparr>"
    by blast
  from c have "map_of (columns df_clean) c = Some s" by (simp add: getitem_map_of)
  then show ?thesis by (simp add: out getitem_def map_add_def)
qed

lemma returned_is_written:
  "merge_regional_data df_clean read_csv = Inr df_merged \<Longrightarrow>
   merged_output df_clean read_csv = Inr df_merged"
  by (auto simp add: merge_regional_data_def and_then_eq_Inr)

subsection \<open>The small run of the merger\<close>

lemma load_regions_example:
  "load_regions example_read_csv = ([UTF8, Latin1], Inr example_regions)"
  by (simp add: load_regions_def example_read_csv_def)

lemma wf_example_cleaned: "wf_frame example_cleaned"
  by (simp add: wf_frame_def example_cleaned_def na_def)

lemma example_regions_cleaned:
  "dropna_columns_all (drop_unnamed example_regions) =
   \<lparr>index_len = 3,
    columns =
      [(''ResponseId'', [Str (u ''R_7''), Str (u ''R_1''), Str (u ''R_9'')]),
       (''PLZ'', [Num (Fin 10115), Num (Fin 1067), Num (Fin 1067)]),
       (''Bundesland'', [Str (u ''Berlin''), Str (u ''Sachsen''), Str (u ''Sachsen'')]),
       (''Kreis'', [Str (u ''Berlin''), Str (u ''Dresden''), Str (u ''Dresden'')]),
       (''Stadt.Dummy'', [Num (Fin 1), Num (Fin 1), Num (Fin 1)]),
       (''EW.km2'', [Num (Fin 4000), Num (Fin 1700), Num (Fin 1700)]),
       (''Rural.Dummy'', [Num (Fin 0), Num (Fin 0), Num (Fin 0)]),
       (''EW'', [Num (Fin 3600000), Num (Fin 550000), Num (Fin 550000)]),
       (''Metropol.Dummy'', [Num (Fin 1), Num (Fin 0), Num (Fin 0)])]\<rparr>"
  by (simp add: dropna_columns_all_def drop_unnamed_def example_regions_def isna_def na_def)

lemma example_group_keys:
  "group_keys [Num (Fin 10115), Num (Fin 1067), Num (Fin 1067)] =
   [Num (Fin 1067), Num (Fin 10115)]"
  by (simp add: group_keys_def sort_cells_def isna_def)

lemma example_joined_column:
  "joined_column [Num (Fin 1067), Num (Fin 99999)]
     [Num (Fin 10115), Num (Fin 1067), Num (Fin 1067)] [a, b, c] =
   [first_valid [b, c], Num NaN]"
  by (simp add: joined_column_def group_cells_def isna_def)

lemma example_merge_run:
  "merge_regional_data example_cleaned example_read_csv = Inr example_merged"
proof -
  let ?R = "dropna_columns_all (drop_unnamed example_regions)"
  have zips: "getitem example_cleaned ''zip_code'' = Inr [Num (Fin 1067), Num (Fin 99999)]"
    by (simp add: getitem_def example_cleaned_def)
  have loaded: "snd (load_regions example_read_csv) = Inr example_regions"
    by (simp add: load_regions_example)
  have plz: "getitem ?R ''PLZ'' = Inr [Num (Fin 10115), Num (Fin 1067), Num (Fin 1067)]"
    and s1: "getitem ?R ''Bundesland'' =
             Inr [Str (u ''Berlin''), Str (u ''Sachsen''), Str (u ''Sachsen'')]"
    and s2: "getitem ?R ''Kreis'' =
             Inr [Str (u ''Berlin''), Str (u ''Dresden''), Str (u ''Dresden'')]"
    and s3: "getitem ?R ''Stadt.Dummy'' = Inr [Num (Fin 1), Num (Fin 1), Num (Fin 1)]"
    and s4: "getitem ?R ''EW.km2'' = Inr [Num (Fin 4000), Num (Fin 1700), Num (Fin 1700)]"
    and s5: "getitem ?R ''Rural.Dummy'' = Inr [Num (Fin 0), Num (Fin 0), Num (Fin 0)]"
    and s6: "getitem ?R ''EW'' = Inr [Num (Fin 3600000), Num (Fin 550000), Num (Fin 550000)]"
    and s7: "getitem ?R ''Metropol.Dummy'' = Inr [Num (Fin 1), Num (Fin 0), Num (Fin 0)]"
    unfolding example_regions_cleaned by (simp_all add: getitem_def)
  have types: "[Num (Fin 1067), Num (Fin 99999)] = [] \<or>
      group_keys [Num (Fin 10115), Num (Fin 1067), Num (Fin 1067)] = [] \<or>
      has_text [Num (Fin 1067), Num (Fin 99999)] =
      has_text (group_keys [Num (Fin 10115), Num (Fin 1067), Num (Fin 1067)])"
    by (simp add: example_group_keys has_text_def)
  have disj: "set (map fst (columns example_cleaned)) \<inter> set (''region_plz'' # new_vars) = {}"
    by (simp add: example_cleaned_def new_vars_def)
  have "merge_regional_data example_cleaned example_read_csv =
     Inr \<lparr>index_len = index_len example_cleaned,
          columns = columns example_cleaned @
            [(''federal_state'', [first_valid [Str (u ''Sachsen''), Str (u ''Sachsen'')], Num NaN]),
             (''district'', [first_valid [Str (u ''Dresden''), Str (u ''Dresden'')], Num NaN]),
             (''is_city'', [first_valid [Num (Fin 1), Num (Fin 1)], Num NaN]),
             (''population_density'', [first_valid [Num (Fin 1700), Num (Fin 1700)], Num NaN]),
             (''is_rural'', [first_valid [Num (Fin 0), Num (Fin 0)], Num NaN]),
             (''population'', [first_valid [Num (Fin 550000), Num (Fin 550000)], Num NaN]),
             (''is_metropolitan'', [first_valid [Num (Fin 0), Num (Fin 0)], Num NaN])]\<rparr>"
    using merge_regional_data_runs
      [OF wf_example_cleaned zips loaded plz s1 s2 s3 s4 s5 s6 s7 types disj]
    by (simp only: example_joined_column)
  moreover have "index_len example_cleaned = 2" by (simp add: example_cleaned_def)
  ultimately show ?thesis
    by (simp add: example_merged_def first_valid_def isna_def na_def)
qed

subsection \<open>C1: the income-range parser\<close>

text \<open>
  C1, as the code has it: \<open>parse_income_range\<close> applies \<open>extract_midpoint\<close> to each cell.
  The runs of digits are those of \<open>findall_digits\<close>, where a digit is a decimal digit of
  any script. A missing cell and a text with no run of digits give missing; a text with
  exactly one run gives that number; a text with two or more runs gives the binary64 mean
  of the first two numbers (later runs are not read). Where the numbers are below \<open>2^52\<close>
  (one number: \<open>2^53\<close>) the binary64 result is the exact number, so \<open>1001-1500\<close> gives
  \<open>1250.5\<close>.
\<close>

theorem parse_income_range_first_two:
  "parse_income_range ns vs = map (extract_midpoint ns) vs \<and>
   extract_midpoint ns (Num NaN) = Num NaN \<and>
   (findall_digits s = [] \<longrightarrow> extract_midpoint ns (Str s) = Num NaN) \<and>
   (\<forall>a. findall_digits s = [a] \<longrightarrow>
      extract_midpoint ns (Str s) = Num (float_of_digits a) \<and>
      (nat_of_digits a < 2 ^ 53 \<longrightarrow>
         extract_midpoint ns (Str s) = Num (Fin (of_nat (nat_of_digits a))))) \<and>
   (\<forall>a b rest. findall_digits s = a # b # rest \<longrightarrow>
      extract_midpoint ns (Str s) =
        Num (fdiv (fadd (float_of_digits a) (float_of_digits b)) (Fin 2)) \<and>
      (nat_of_digits a < 2 ^ 52 \<and> nat_of_digits b < 2 ^ 52 \<longrightarrow>
         extract_midpoint ns (Str s) =
           Num (Fin ((of_nat (nat_of_digits a) + of_nat (nat_of_digits b)) / 2))))"
proof (intro conjI allI impI)
  show "parse_income_range ns vs = map (extract_midpoint ns) vs"
    by (simp add: parse_income_range_def)
  show "extract_midpoint ns (Num NaN) = Num NaN"
    by (simp add: extract_midpoint_def isna_def)
  show "extract_midpoint ns (Str s) = Num NaN" if "findall_digits s = []"
    using that by (simp add: extract_midpoint_def isna_def py_str_def)
  show one: "extract_midpoint ns (Str s) = Num (float_of_digits a)" if "findall_digits s = [a]" for a
    using that by (simp add: extract_midpoint_def isna_def py_str_def)
  show "extract_midpoint ns (Str s) = Num (Fin (of_nat (nat_of_digits a)))"
    if "findall_digits s = [a]" and "nat_of_digits a < 2 ^ 53" for a
    using one [OF that(1)] float_of_digits_exact [OF that(2)] by simp
  show two: "extract_midpoint ns (Str s) =
      Num (fdiv (fadd (float_of_digits a) (float_of_digits b)) (Fin 2))"
    if "findall_digits s = a # b # rest" for a b rest
    using that by (simp add: extract_midpoint_def isna_def py_str_def)
  show "extract_midpoint ns (Str s) =
      Num (Fin ((of_nat (nat_of_digits a) + of_nat (nat_of_digits b)) / 2))"
    if r: "findall_digits s = a # b # rest"
      and b: "nat_of_digits a < 2 ^ 52 \<and> nat_of_digits b < 2 ^ 52" for a b rest
  proof -
    have "nat_of_digits a < 2 ^ 53" "nat_of_digits b < 2 ^ 53" using b by simp_all
    then show ?thesis
      using two [OF r] b float_midpoint_exact [of "nat_of_digits a" "nat_of_digits b"]
      by (simp add: float_of_digits_exact)
  qed
qed

text \<open>
  The two examples of C1, a text with no digit, a missing cell, and the number 123 written
  with Arabic-Indic digits (U+0661 to U+0663), alone and after \<open>12\<close>.
\<close>

lemma findall_1001_1500: "findall_digits (u ''1001-1500'' @ [8364]) = [u ''1001'', u ''1500'']"
  by (simp add: findall_digits_def u_def is_digit_below_1632 is_digit_euro)

lemma findall_500: "findall_digits (u ''500'' @ [8364]) = [u ''500'']"
  by (simp add: findall_digits_def u_def is_digit_below_1632 is_digit_euro)

theorem parse_income_range_first_two_witness:
  "extract_midpoint (\<lambda>x. []) (Str (u ''1001-1500'' @ [8364])) = Num (Fin (2501 / 2)) \<and>
   extract_midpoint (\<lambda>x. []) (Str (u ''500'' @ [8364])) = Num (Fin 500) \<and>
   extract_midpoint (\<lambda>x. []) (Str (u ''keine Angabe'')) = Num NaN \<and>
   parse_income_range (\<lambda>x. []) [Num NaN] = [Num NaN] \<and>
   extract_midpoint (\<lambda>x. []) (Str [1633, 1634, 1635]) = Num (Fin 123) \<and>
   extract_midpoint (\<lambda>x. []) (Str [49, 50, 1635]) = Num (Fin 123)"
proof -
  have f3: "findall_digits [1633, 1634, 1635] = [[1633, 1634, 1635]]"
    "findall_digits [49, 50, 1635] = [[49, 50, 1635]]"
    by (simp_all add: findall_digits_def is_digit_def decimal_value_def decimal_digit_blocks_def)
  have n3: "nat_of_digits [1633, 1634, 1635] = 123" "nat_of_digits [49, 50, 1635] = 123"
    by (simp_all add: nat_of_digits_def decimal_value_def decimal_digit_blocks_def)
  note d = parse_income_range_first_two [of "\<lambda>x. []" "[Num NaN]" "[1633, 1634, 1635]"]
  note e = parse_income_range_first_two [of "\<lambda>x. []" "[Num NaN]" "[49, 50, 1635]"]
  have "nat_of_digits [1633, 1634, 1635] < 2 ^ 53" "nat_of_digits [49, 50, 1635] < 2 ^ 53"
    by (simp_all add: n3)
  with d e f3
  have "extract_midpoint (\<lambda>x. []) (Str [1633, 1634, 1635]) =
      Num (Fin (of_nat (nat_of_digits [1633, 1634, 1635])))"
    and "extract_midpoint (\<lambda>x. []) (Str [49, 50, 1635]) =
      Num (Fin (of_nat (nat_of_digits [49, 50, 1635])))"
    by blast+
  then have other: "extract_midpoint (\<lambda>x. []) (Str [1633, 1634, 1635]) = Num (Fin 123)"
    "extract_midpoint (\<lambda>x. []) (Str [49, 50, 1635]) = Num (Fin 123)"
    by (simp_all add: n3)
  have n1: "nat_of_digits (u ''1001'') = 1001" "nat_of_digits (u ''1500'') = 1500"
    "nat_of_digits (u ''500'') = 500"
    by (simp_all add: nat_of_digits_def u_def decimal_value_ascii)
  have none: "findall_digits (u ''keine Angabe'') = []"
    by (simp add: findall_digits_def u_def is_digit_below_1632 is_digit_euro)
  note a = parse_income_range_first_two [of "\<lambda>x. []" "[Num NaN]" "u ''1001-1500'' @ [8364]"]
  note b = parse_income_range_first_two [of "\<lambda>x. []" "[Num NaN]" "u ''500'' @ [8364]"]
  note c = parse_income_range_first_two [of "\<lambda>x. []" "[Num NaN]" "u ''keine Angabe''"]
  have "nat_of_digits (u ''1001'') < 2 ^ 52 \<and> nat_of_digits (u ''1500'') < 2 ^ 52"
    by (simp add: n1)
  with a findall_1001_1500
  have "extract_midpoint (\<lambda>x. []) (Str (u ''1001-1500'' @ [8364])) =
      Num (Fin ((of_nat (nat_of_digits (u ''1001'')) + of_nat (nat_of_digits (u ''1500''))) / 2))"
    by blast
  then have two: "extract_midpoint (\<lambda>x. []) (Str (u ''1001-1500'' @ [8364])) = Num (Fin (2501 / 2))"
    by (simp add: n1)
  have "nat_of_digits (u ''500'') < 2 ^ 53" by (simp add: n1)
  with b findall_500
  have "extract_midpoint (\<lambda>x. []) (Str (u ''500'' @ [8364])) =
      Num (Fin (of_nat (nat_of_digits (u ''500''))))"
    by blast
  then have one: "extract_midpoint (\<lambda>x. []) (Str (u ''500'' @ [8364])) = Num (Fin 500)"
    by (simp add: n1)
  from c none have zero: "extract_midpoint (\<lambda>x. []) (Str (u ''keine Angabe'')) = Num NaN"
    by blast
  from c have "parse_income_range (\<lambda>x. []) [Num NaN] = map (extract_midpoint (\<lambda>x. [])) [Num NaN]"
    and "extract_midpoint (\<lambda>x. []) (Num NaN) = Num NaN" by blast+
  then have na: "parse_income_range (\<lambda>x. []) [Num NaN] = [Num NaN]" by simp
  show ?thesis using two one zero na other by (intro conjI)
qed

text \<open>
  C1 as stated fails on a text with three runs: the mean of the extracted numbers
  \<open>10\<close>, \<open>20\<close>, \<open>60\<close> is \<open>30\<close>, the code returns \<open>15\<close>.
\<close>

theorem parse_income_range_mean_counterexample:
  "2 \<le> length (findall_digits (u ''10-20-60'')) \<and>
   extract_midpoint (\<lambda>x. []) (Str (u ''10-20-60'')) = Num (Fin 15) \<and>
   spec_midpoint (u ''10-20-60'') = Num (Fin 30) \<and>
   extract_midpoint (\<lambda>x. []) (Str (u ''10-20-60'')) \<noteq> spec_midpoint (u ''10-20-60'')"
proof -
  have f: "findall_digits (u ''10-20-60'') = [u ''10'', u ''20'', u ''60'']"
    by (simp add: findall_digits_def u_def is_digit_below_1632 is_digit_euro)
  have n: "nat_of_digits (u ''10'') = 10" "nat_of_digits (u ''20'') = 20"
    "nat_of_digits (u ''60'') = 60"
    by (simp_all add: nat_of_digits_def u_def decimal_value_ascii)
  have fl: "float_of_digits (u ''10'') = Fin 10" "float_of_digits (u ''20'') = Fin 20"
    using float_of_digits_exact [of "u ''10''"] float_of_digits_exact [of "u ''20''"]
    by (simp_all add: n)
  have m: "fdiv (fadd (Fin 10) (Fin 20)) (Fin 2) = Fin 15"
    using float_midpoint_exact [of 10 20] by (simp del: fadd.simps fdiv.simps)
  have c: "extract_midpoint (\<lambda>x. []) (Str (u ''10-20-60'')) = Num (Fin 15)"
    by (simp add: extract_midpoint_def isna_def py_str_def f fl m del: fadd.simps fdiv.simps)
  have sp: "spec_midpoint (u ''10-20-60'') = Num (Fin 30)"
    by (simp add: spec_midpoint_def f n)
  show ?thesis using c sp by (simp add: f)
qed

subsection \<open>C2: one row for each postal code\<close>

text \<open>
  After \<open>groupby('PLZ').first()\<close> each postal code of the region table has one row, and
  a field of that row is the field of the first row of the code whenever that field is
  not missing there.
\<close>

lemma groupby_first_one_row_each:
  assumes "groupby_first ''PLZ'' df = Inr agg" and "getitem df ''PLZ'' = Inr plz"
  shows "getitem agg ''PLZ'' = Inr (group_keys plz) \<and> distinct (group_keys plz) \<and>
         set (group_keys plz) = {k \<in> set plz. \<not> isna k}"
  using groupby_first_columns [OF assms(1)] assms(2)
  by (auto simp add: group_keys_distinct group_keys_set)

lemma first_valid_first_row: "\<not> isna v \<Longrightarrow> first_valid (v # vs) = v"
  by (simp add: first_valid_def)

text \<open>
  C2 on two region rows of one postal code, the first without a federal state:
  \<open>first()\<close> takes the first value that is not missing column by column, so the row
  kept for \<open>1067\<close> has the federal state of the second row and the district of the first.
  It is neither row of the input; the first-seen row has no federal state.
\<close>

theorem groupby_first_mixes_rows:
  "getitem example_duplicates ''PLZ'' = Inr [Num (Fin 1067), Num (Fin 1067)] \<and>
   getitem example_duplicates ''Bundesland'' = Inr [Num NaN, Str (u ''Sachsen'')] \<and>
   getitem example_duplicates ''Kreis'' = Inr [Str (u ''Dresden''), Str (u ''Leipzig'')] \<and>
   groupby_first ''PLZ'' example_duplicates =
     Inr \<lparr>index_len = 1,
          columns = [(''PLZ'', [Num (Fin 1067)]),
                     (''Bundesland'', [Str (u ''Sachsen'')]),
                     (''Kreis'', [Str (u ''Dresden'')])]\<rparr>"
  by (simp add: groupby_first_def getitem_def example_duplicates_def na_def Let_def
      group_keys_def sort_cells_def group_cells_def first_valid_def isna_def)

subsection \<open>C3: the imputation for respondents living alone\<close>

text \<open>
  C3: the indicator is column \<open>Q1\<close> of the secondary table without its first two rows,
  read at the row's position. In every row where it is \<open>Nein\<close> (the \<open>No\<close> of the
  output column \<open>lives_with_others\<close>), each of \<open>num_children\<close>, \<open>num_partners\<close>,
  \<open>num_parents\<close>, \<open>num_siblings\<close> is 0 where the raw field is missing and the raw
  value otherwise; in every other row (yes, missing, anything else) the four fields have
  their raw values.
\<close>

theorem living_alone_imputation:
  assumes "clean_exogenous_dataset ns df df_original = Inr out" and "wf_frame df"
    and "i < index_len df"
    and "(field, code) \<in> set [(''num_children'', ''Q4_4''), (''num_partners'', ''Q4_2''),
                              (''num_parents'', ''Q4_3''), (''num_siblings'', ''Q4_5'')]"
  shows "\<exists>q1 raw cleaned ind.
           getitem (iloc_from 2 df_original) ''Q1'' = Inr q1 \<and> i < length q1 \<and>
           getitem df code = Inr raw \<and> getitem out field = Inr cleaned \<and>
           length cleaned = index_len df \<and>
           getitem out ''lives_with_others'' = Inr ind \<and>
           (ind ! i = Str (u ''No'') \<longleftrightarrow> q1 ! i = Str (u ''Nein'')) \<and>
           (q1 ! i = Str (u ''Nein'') \<longrightarrow>
              cleaned ! i = (if isna (raw ! i) then Num (Fin 0) else raw ! i)) \<and>
           (q1 ! i \<noteq> Str (u ''Nein'') \<longrightarrow> cleaned ! i = raw ! i)"
proof -
  have pos: "0 < index_len df" using assms(3) by simp
  let ?n = "index_len df"
  let ?m = "[(u ''Ja'', Str (u ''Yes'')), (u ''Nein'', Str (u ''No''))]"
  from clean_count_column [OF assms(1,2) pos assms(4)] obtain q1 raw where
    q1: "getitem (iloc_from 2 df_original) ''Q1'' = Inr q1" and lq: "?n \<le> length q1"
    and raw: "getitem df code = Inr raw" and lr: "length raw = ?n"
    and ind: "getitem out ''lives_with_others'' = Inr (take ?n (series_map ?m q1))"
    and col: "getitem out field =
        Inr (loc_set raw (fillna (Num (Fin 0))
               (loc_get (take ?n (series_eq q1 (Str (u ''Nein'')))) raw)))"
    by blast
  let ?cleaned = "loc_set raw (fillna (Num (Fin 0))
               (loc_get (take ?n (series_eq q1 (Str (u ''Nein'')))) raw))"
  have iq: "i < length q1" and ir: "i < length raw" using assms(3) lq lr by simp_all
  have key: "take ?n (series_eq q1 (Str (u ''Nein''))) ! i \<longleftrightarrow> q1 ! i = Str (u ''Nein'')"
    using assms(3) iq by (auto simp add: series_eq_def isna_def)
  have cell: "?cleaned ! i = (if q1 ! i = Str (u ''Nein'') \<and> isna (raw ! i) then Num (Fin 0) else raw ! i)"
    using loc_fillna_nth [OF ir] key by simp
  have indi: "take ?n (series_map ?m q1) ! i = Str (u ''No'') \<longleftrightarrow> q1 ! i = Str (u ''Nein'')"
    using assms(3) iq
    by (cases "q1 ! i") (auto simp add: series_map_nth u_def)
  have "length ?cleaned = ?n" using lr by simp
  with q1 iq raw col ind indi cell show ?thesis by auto
qed

text \<open>
  The small run: the first respondent lives alone, so the missing number of children
  becomes 0 and the number of partners stays 1; the second does not, and the missing
  numbers stay missing.
\<close>

theorem living_alone_imputation_witness:
  "clean_exogenous_dataset example_num_str example_df example_original = Inr example_cleaned \<and>
   getitem (iloc_from 2 example_original) ''Q1'' = Inr [Str (u ''Nein''), Str (u ''Ja'')] \<and>
   getitem example_df ''Q4_4'' = Inr [Num NaN, Num NaN] \<and>
   getitem example_cleaned ''num_children'' = Inr [Num (Fin 0), Num NaN] \<and>
   getitem example_df ''Q4_2'' = Inr [Num (Fin 1), Num NaN] \<and>
   getitem example_cleaned ''num_partners'' = Inr [Num (Fin 1), Num NaN]"
proof -
  have i: "(0::nat) < index_len example_df" by (simp add: example_df_def)
  have f: "(''num_children'', ''Q4_4'') \<in> set [(''num_children'', ''Q4_4''), (''num_partners'', ''Q4_2''),
                              (''num_parents'', ''Q4_3''), (''num_siblings'', ''Q4_5'')]"
    by simp
  have q1: "getitem (iloc_from 2 example_original) ''Q1'' = Inr [Str (u ''Nein''), Str (u ''Ja'')]"
    by (simp add: getitem_def iloc_from_def example_original_def)
  have raw: "getitem example_df ''Q4_4'' = Inr [Num NaN, Num NaN]"
    "getitem example_df ''Q4_2'' = Inr [Num (Fin 1), Num NaN]"
    by (simp_all add: getitem_def example_df_def na_def)
  from living_alone_imputation [OF example_clean_run wf_example_df i f] q1 raw
  obtain cleaned where c: "getitem example_cleaned ''num_children'' = Inr cleaned"
    and l: "length cleaned = index_len example_df"
    and v: "cleaned ! 0 = (if isna (Num NaN) then Num (Fin 0) else Num NaN)"
    by auto
  have e: "getitem example_cleaned ''num_children'' = Inr [Num (Fin 0), Num NaN]"
    and p: "getitem example_cleaned ''num_partners'' = Inr [Num (Fin 1), Num NaN]"
    by (simp_all add: getitem_def example_cleaned_def na_def)
  from c e have "cleaned = [Num (Fin 0), Num NaN]" by simp
  with c have "getitem example_cleaned ''num_children'' = Inr [Num (Fin 0), Num NaN]" by simp
  with example_clean_run q1 raw p show ?thesis by simp
qed

subsection \<open>C4: the body-mass index\<close>

text \<open>
  C4: in every row of the cleaned table, \<open>bmi\<close> is the cell that \<open>calculate_bmi\<close> computes
  from the raw height \<open>Q82_1\<close> and weight \<open>Q83_1\<close>, namely
  \<open>weight / (height / 100)^2\<close> in binary64 arithmetic with no check of either value
  (a cell of an integer column is first converted to binary64).
  For 180 and 81 it is exactly 25. For a height of 0 it is not finite (an infinity or NaN),
  and that cell is what the column holds. For the integer height \<open>2^53 + 1\<close>, which is no
  binary64, and weight 81 it is \<open>50625 / 2^102\<close>, the index of the height \<open>2^53\<close>.
\<close>

theorem bmi_unguarded:
  assumes "clean_exogenous_dataset ns df df_original = Inr out" and "wf_frame df"
    and "i < index_len df"
  shows "\<exists>hs ws bs h w.
           getitem df ''Q82_1'' = Inr hs \<and> getitem df ''Q83_1'' = Inr ws \<and>
           calculate_bmi hs ws = Inr bs \<and> getitem out ''bmi'' = Inr bs \<and>
           length bs = index_len df \<and> hs ! i = Num h \<and> ws ! i = Num w \<and>
           bs ! i = Num (fdiv (as_float64 w)
                          (fmul (fdiv (as_float64 h) (Fin 100))
                                (fdiv (as_float64 h) (Fin 100)))) \<and>
           (h = Fin 180 \<and> w = Fin 81 \<longrightarrow> bs ! i = Num (Fin 25)) \<and>
           (h = Fin 0 \<longrightarrow> (\<exists>b. bs ! i = Num b \<and> \<not> is_finite b)) \<and>
           calculate_bmi [Num (Fin 9007199254740993)] [Num (Fin 81)] =
             Inr [Num (Fin (50625 / 5070602400912917605986812821504))]"
proof -
  have pos: "0 < index_len df" using assms(3) by simp
  from clean_bmi_column [OF assms(1,2) pos] obtain hs ws bs where
    hs: "getitem df ''Q82_1'' = Inr hs" and ws: "getitem df ''Q83_1'' = Inr ws"
    and lh: "length hs = index_len df" and lw: "length ws = index_len df"
    and c: "calculate_bmi hs ws = Inr bs" and b: "getitem out ''bmi'' = Inr bs"
    by blast
  have l: "length hs = length ws" and i: "i < length hs" using lh lw assms(3) by simp_all
  from calculate_bmi_nth [OF c l i] obtain h w where
    lb: "length bs = length hs" and h: "hs ! i = Num h" and w: "ws ! i = Num w"
    and v: "bs ! i = Num (fdiv (as_float64 w)
                          (fmul (fdiv (as_float64 h) (Fin 100))
                                (fdiv (as_float64 h) (Fin 100))))"
    by blast
  have ex: "h = Fin 180 \<and> w = Fin 81 \<longrightarrow> bs ! i = Num (Fin 25)"
    using v bmi_180_81 by (auto simp add: as_float64_numeral)
  have z: "h = Fin 0 \<longrightarrow> (\<exists>b. bs ! i = Num b \<and> \<not> is_finite b)"
    using v bmi_zero_height [of "as_float64 w"] by auto
  from hs ws c b lb lh h w v ex z calculate_bmi_above_2_53 show ?thesis by auto
qed

text \<open>
  The small run: 180 cm and 81 kg give exactly 25, a height of 0 gives \<open>inf\<close>, which is
  the cell of the \<open>bmi\<close> column.
\<close>

theorem bmi_unguarded_witness:
  "clean_exogenous_dataset example_num_str example_df example_original = Inr example_cleaned \<and>
   getitem example_df ''Q82_1'' = Inr [Num (Fin 180), Num (Fin 0)] \<and>
   getitem example_df ''Q83_1'' = Inr [Num (Fin 81), Num (Fin 81)] \<and>
   getitem example_cleaned ''bmi'' = Inr [Num (Fin 25), Num PInf] \<and>
   calculate_bmi [Num (Fin 180), Num (Fin 0)] [Num (Fin 81), Num (Fin 81)] =
     Inr [Num (Fin 25), Num PInf] \<and>
   \<not> is_finite PInf"
proof -
  have i: "(1::nat) < index_len example_df" by (simp add: example_df_def)
  have hs: "getitem example_df ''Q82_1'' = Inr [Num (Fin 180), Num (Fin 0)]"
    and ws: "getitem example_df ''Q83_1'' = Inr [Num (Fin 81), Num (Fin 81)]"
    by (simp_all add: getitem_def example_df_def)
  have b: "getitem example_cleaned ''bmi'' = Inr [Num (Fin 25), Num PInf]"
    by (simp add: getitem_def example_cleaned_def)
  from bmi_unguarded [OF example_clean_run wf_example_df i] hs ws b
  have "calculate_bmi [Num (Fin 180), Num (Fin 0)] [Num (Fin 81), Num (Fin 81)] =
      Inr [Num (Fin 25), Num PInf]"
    and "\<exists>b. Num PInf = Num b \<and> \<not> is_finite b"
    by auto
  with example_clean_run hs ws b show ?thesis by simp
qed

subsection \<open>C5: the left join on the postal code\<close>



subsection \<open>C6: the respondent identifier\<close>




subsection \<open>C7: the university-degree indicator\<close>




subsection \<open>C8: the encodings tried for the region file\<close>

text \<open>
  C8: the region file is read as UTF-8 first, then as Latin-1, then as CP1252, in this
  order and no other; the attempts end with the first encoding whose reading does not
  raise \<open>UnicodeDecodeError\<close>, and the result of that reading is the result (a table, or
  an error that is no decode failure and ends the run). When all three readings raise
  \<open>UnicodeDecodeError\<close>, the third one is what the merge raises: nothing handles it.
\<close>

theorem encoding_fallback:
  "fst (load_regions read_csv) \<in> set [[UTF8], [UTF8, Latin1], [UTF8, Latin1, CP1252]] \<and>
   snd (load_regions read_csv) = read_csv (last (fst (load_regions read_csv))) \<and>
   (\<forall>enc\<in>set (butlast (fst (load_regions read_csv))). read_csv enc = Inl UnicodeDecodeError) \<and>
   (read_csv UTF8 \<noteq> Inl UnicodeDecodeError \<longrightarrow>
      load_regions read_csv = ([UTF8], read_csv UTF8)) \<and>
   (read_csv UTF8 = Inl UnicodeDecodeError \<and> read_csv Latin1 \<noteq> Inl UnicodeDecodeError \<longrightarrow>
      load_regions read_csv = ([UTF8, Latin1], read_csv Latin1)) \<and>
   (read_csv UTF8 = Inl UnicodeDecodeError \<and> read_csv Latin1 = Inl UnicodeDecodeError \<longrightarrow>
      load_regions read_csv = ([UTF8, Latin1, CP1252], read_csv CP1252)) \<and>
   ((\<forall>enc. read_csv enc = Inl UnicodeDecodeError) \<and>
    (\<exists>zips. getitem df_clean ''zip_code'' = Inr zips) \<longrightarrow>
      merge_regional_data df_clean read_csv = Inl UnicodeDecodeError)"
proof -
  have "merge_regional_data df_clean read_csv = Inl UnicodeDecodeError"
    if "\<forall>enc. read_csv enc = Inl UnicodeDecodeError"
      and "\<exists>zips. getitem df_clean ''zip_code'' = Inr zips"
  proof -
    from that(1) have "snd (load_regions read_csv) = Inl UnicodeDecodeError"
      by (simp add: load_regions_def)
    with that(2) show ?thesis by (auto simp add: merge_regional_data_def merged_output_def)
  qed
  then show ?thesis by (auto simp add: load_regions_def Let_def)
qed

text \<open>
  The small run: the region file is not valid UTF-8, so it is read as Latin-1 and CP1252
  is not tried. A file that no encoding can read makes the merge raise the decode error.
\<close>

theorem encoding_fallback_witness:
  "example_read_csv UTF8 = Inl UnicodeDecodeError \<and>
   example_read_csv Latin1 = Inr example_regions \<and>
   load_regions example_read_csv = ([UTF8, Latin1], Inr example_regions) \<and>
   getitem example_cleaned ''zip_code'' = Inr [Num (Fin 1067), Num (Fin 99999)] \<and>
   merge_regional_data example_cleaned (\<lambda>enc. Inl UnicodeDecodeError) =
     Inl UnicodeDecodeError"
proof -
  have r: "example_read_csv UTF8 = Inl UnicodeDecodeError"
    "example_read_csv Latin1 = Inr example_regions"
    by (simp_all add: example_read_csv_def)
  have z: "getitem example_cleaned ''zip_code'' = Inr [Num (Fin 1067), Num (Fin 99999)]"
    by (simp add: getitem_def example_cleaned_def)
  from encoding_fallback [of example_read_csv example_cleaned] r
  have a: "load_regions example_read_csv = ([UTF8, Latin1], Inr example_regions)" by simp
  from encoding_fallback [of "\<lambda>enc. Inl UnicodeDecodeError" example_cleaned] z
  have b: "merge_regional_data example_cleaned (\<lambda>enc. Inl UnicodeDecodeError) =
      Inl UnicodeDecodeError" by simp
  from r a z b show ?thesis by simp
qed

subsection \<open>C10: gender and gender code\<close>

text \<open>
  C10: in every row of the cleaned table, \<open>gender\<close> is missing exactly when
  \<open>gender_code\<close> is, and when they are present the pair is one of \<open>(Male, 1)\<close>,
  \<open>(Female, 2)\<close>, \<open>(Diverse, 3)\<close>: both are looked up from the same raw answer \<open>Q256\<close>
  in tables with the same three keys.
\<close>

theorem gender_and_gender_code_consistent:
  assumes "clean_exogenous_dataset ns df df_original = Inr out" and "wf_frame df"
    and "i < index_len df"
  shows "\<exists>raw g gc.
           getitem df ''Q256'' = Inr raw \<and> getitem out ''gender'' = Inr g \<and>
           getitem out ''gender_code'' = Inr gc \<and>
           length g = index_len df \<and> length gc = index_len df \<and>
           (isna (g ! i) \<longleftrightarrow> isna (gc ! i)) \<and>
           (\<not> isna (g ! i) \<longrightarrow>
              (g ! i, gc ! i) \<in> set [(Str (u ''Male''), Num (Fin 1)),
                                    (Str (u ''Female''), Num (Fin 2)),
                                    (Str (u ''Diverse''), Num (Fin 3))]) \<and>
           (raw ! i = Str (u ''M'' @ [228] @ u ''nnlich'') \<longrightarrow>
              g ! i = Str (u ''Male'') \<and> gc ! i = Num (Fin 1)) \<and>
           (raw ! i = Str (u ''Weiblich'') \<longrightarrow>
              g ! i = Str (u ''Female'') \<and> gc ! i = Num (Fin 2)) \<and>
           (raw ! i = Str (u ''Divers'') \<longrightarrow>
              g ! i = Str (u ''Diverse'') \<and> gc ! i = Num (Fin 3))"
proof -
  have pos: "0 < index_len df" using assms(3) by simp
  from clean_gender_columns [OF assms(1,2) pos] obtain raw where
    raw: "getitem df ''Q256'' = Inr raw" and lr: "length raw = index_len df"
    and g: "getitem out ''gender'' = Inr (encode_gender raw)"
    and gc: "getitem out ''gender_code'' =
             Inr (series_map [(u ''M'' @ [228] @ u ''nnlich'', Num (Fin 1)),
                              (u ''Weiblich'', Num (Fin 2)), (u ''Divers'', Num (Fin 3))] raw)"
    by blast
  have i: "i < length raw" using assms(3) lr by simp
  let ?g = "encode_gender raw"
  let ?gc = "series_map [(u ''M'' @ [228] @ u ''nnlich'', Num (Fin 1)),
                         (u ''Weiblich'', Num (Fin 2)), (u ''Divers'', Num (Fin 3))] raw"
  have cells: "(isna (?g ! i) \<longleftrightarrow> isna (?gc ! i)) \<and>
      (\<not> isna (?g ! i) \<longrightarrow>
         (?g ! i, ?gc ! i) \<in> set [(Str (u ''Male''), Num (Fin 1)),
                                 (Str (u ''Female''), Num (Fin 2)),
                                 (Str (u ''Diverse''), Num (Fin 3))]) \<and>
      (raw ! i = Str (u ''M'' @ [228] @ u ''nnlich'') \<longrightarrow>
         ?g ! i = Str (u ''Male'') \<and> ?gc ! i = Num (Fin 1)) \<and>
      (raw ! i = Str (u ''Weiblich'') \<longrightarrow>
         ?g ! i = Str (u ''Female'') \<and> ?gc ! i = Num (Fin 2)) \<and>
      (raw ! i = Str (u ''Divers'') \<longrightarrow>
         ?g ! i = Str (u ''Diverse'') \<and> ?gc ! i = Num (Fin 3))"
  proof (cases "raw ! i")
    case (Num x)
    then show ?thesis using i by (simp add: encode_gender_def series_map_nth isna_def)
  next
    case (Str k)
    then show ?thesis using i
      by (simp add: encode_gender_def series_map_nth isna_def u_def)
  qed
  have "length ?g = index_len df" "length ?gc = index_len df"
    using lr by (simp_all add: encode_gender_def)
  with raw g gc cells show ?thesis by blast
qed

text \<open>The small run: the first respondent is \<open>(Male, 1)\<close>, the second has neither field.\<close>

theorem gender_and_gender_code_consistent_witness:
  "clean_exogenous_dataset example_num_str example_df example_original = Inr example_cleaned \<and>
   getitem example_cleaned ''gender'' = Inr [Str (u ''Male''), Num NaN] \<and>
   getitem example_cleaned ''gender_code'' = Inr [Num (Fin 1), Num NaN] \<and>
   \<not> isna (Str (u ''Male'')) \<and> \<not> isna (Num (Fin 1)) \<and> isna (Num NaN)"
proof -
  have i: "(0::nat) < index_len example_df" "(1::nat) < index_len example_df"
    by (simp_all add: example_df_def)
  note a = gender_and_gender_code_consistent [OF example_clean_run wf_example_df i(1)]
  note b = gender_and_gender_code_consistent [OF example_clean_run wf_example_df i(2)]
  have g: "getitem example_cleaned ''gender'' = Inr [Str (u ''Male''), Num NaN]"
    and gc: "getitem example_cleaned ''gender_code'' = Inr [Num (Fin 1), Num NaN]"
    by (simp_all add: getitem_def example_cleaned_def na_def)
  from a g gc have "isna (Str (u ''Male'')) \<longleftrightarrow> isna (Num (Fin 1))" by auto
  moreover from b g gc have "isna (Num NaN) \<longleftrightarrow> isna (Num NaN)" by auto
  moreover have "\<not> isna (Str (u ''Male''))" "isna (Num NaN)" by (simp_all add: isna_def)
  ultimately show ?thesis using example_clean_run g gc by simp
qed

end
